theory Spec2Isabelle
  imports Main "HOL-Library.Sublist"
begin

section \<open>Values, failures and the call log\<close>

text \<open>
  The program is the single module \<^verbatim>\<open>main.py\<close>: a skeleton of a finance application whose
  methods raise \<^verbatim>\<open>NotImplementedError\<close>, and a command-line entry point built on the standard
  library's \<^verbatim>\<open>argparse\<close>.

  Python strings are modelled as \<^typ>\<open>string\<close>. Text outside ASCII (the messages of the
  exceptions) is given by its UTF-8 bytes; every string operation used below (equality,
  prefix test, splitting at \<^verbatim>\<open>=\<close>, looking at the first characters) compares with ASCII
  characters only and is not affected by that encoding.

  An exception is a value of \<open>error\<close>: \<open>NotImplementedError None\<close> is
  \<^verbatim>\<open>raise NotImplementedError\<close>, \<open>NotImplementedError (Some m)\<close> is
  \<^verbatim>\<open>raise NotImplementedError(m)\<close>, \<open>SystemExit n\<close> is what \<^verbatim>\<open>sys.exit(n)\<close> raises,
  \<open>ValueError\<close> is raised by \<^verbatim>\<open>Path.with_name\<close>, \<open>IndexError\<close> by an index out of range and
  \<open>AttributeError\<close> by reading an attribute that an object does not have.
\<close>

datatype error =
    NotImplementedError "string option"
  | SystemExit int
  | ValueError
  | IndexError
  | AttributeError

text \<open>
  The values a command-line namespace can hold: \<^verbatim>\<open>None\<close>, a \<^verbatim>\<open>str\<close>, an \<^verbatim>\<open>int\<close>, and a list
  of such values.
\<close>

datatype pyval = PyNone | PyStr string | PyInt int | PyList "pyval list"

text \<open>
  Every constructor and method of the application classes appends its qualified name to a
  call log when it is entered. The log is the only addition to what the source computes; it
  makes statements such as "\<^verbatim>\<open>start\<close> is never invoked" expressible. A method takes its receiver
  and the log and returns its outcome, the receiver afterwards and the log afterwards, so
  that the receiver's fields can be read also after the method has raised.
\<close>

type_synonym calls = "string list"

type_synonym ('s, 'a) outcome = "(error + 'a) \<times> 's \<times> calls"

definition msg_initialize :: string where
  "msg_initialize =
     [CHR 0xE5, CHR 0x88, CHR 0x9B, CHR 0xE5, CHR 0xBB, CHR 0xBA] @ '' users '' @
     [CHR 0xE4, CHR 0xB8, CHR 0x8E] @ '' transactions '' @
     [CHR 0xE4, CHR 0xB8, CHR 0xA4, CHR 0xE5, CHR 0xBC, CHR 0xA0, CHR 0xE8, CHR 0xA1, CHR 0xA8]"

definition msg_start :: string where
  "msg_start =
     [CHR 0xE5, CHR 0x88, CHR 0x9D, CHR 0xE5, CHR 0xA7, CHR 0x8B, CHR 0xE5, CHR 0x8C, CHR 0x96] @
     '' socket/HTTP '' @
     [CHR 0xE6, CHR 0x9C, CHR 0x8D, CHR 0xE5, CHR 0x8A, CHR 0xA1, CHR 0xEF, CHR 0xBC, CHR 0x8C,
      CHR 0xE6, CHR 0x8E, CHR 0xA5, CHR 0xE5, CHR 0x8F, CHR 0x97, CHR 0xE5, CHR 0xAE, CHR 0xA2,
      CHR 0xE6, CHR 0x88, CHR 0xB7, CHR 0xE7, CHR 0xAB, CHR 0xAF, CHR 0xE8, CHR 0xBF, CHR 0x9E,
      CHR 0xE6, CHR 0x8E, CHR 0xA5]"

definition msg_dispatch :: string where
  "msg_dispatch =
     [CHR 0xE6, CHR 0xA0, CHR 0xB9, CHR 0xE6, CHR 0x8D, CHR 0xAE] @ '' action '' @
     [CHR 0xE5, CHR 0x88, CHR 0x86, CHR 0xE5, CHR 0x8F, CHR 0x91, CHR 0xE5, CHR 0x88, CHR 0xB0,
      CHR 0xE4, CHR 0xB8, CHR 0x8D, CHR 0xE5, CHR 0x90, CHR 0x8C, CHR 0xE5, CHR 0xA4, CHR 0x84,
      CHR 0xE7, CHR 0x90, CHR 0x86, CHR 0xE5, CHR 0x87, CHR 0xBD, CHR 0xE6, CHR 0x95, CHR 0xB0]"

definition msg_admin_actions :: string where
  "msg_admin_actions =
     [CHR 0xE7, CHR 0xAE, CHR 0xA1, CHR 0xE7, CHR 0x90, CHR 0x86, CHR 0xE5, CHR 0x91, CHR 0x98,
      CHR 0xE5, CHR 0x8F, CHR 0xAF, CHR 0xE6, CHR 0x9F, CHR 0xA5, CHR 0xE7, CHR 0x9C, CHR 0x8B,
      CHR 0xE6, CHR 0x89, CHR 0x80, CHR 0xE6, CHR 0x9C, CHR 0x89, CHR 0xE7, CHR 0x94, CHR 0xA8,
      CHR 0xE6, CHR 0x88, CHR 0xB7, CHR 0xE8, CHR 0xAE, CHR 0xB0, CHR 0xE5, CHR 0xBD, CHR 0x95,
      CHR 0xE3, CHR 0x80, CHR 0x81, CHR 0xE7, CHR 0xBB, CHR 0x9F, CHR 0xE8, CHR 0xAE, CHR 0xA1,
      CHR 0xE5, CHR 0x9B, CHR 0xBE, CHR 0xE8, CHR 0xA1, CHR 0xA8, CHR 0xE7, CHR 0xAD, CHR 0x89]"

definition msg_require_login :: string where
  "msg_require_login =
     [CHR 0xE8, CHR 0x8B, CHR 0xA5, CHR 0xE6, CHR 0x9C, CHR 0xAA, CHR 0xE7, CHR 0x99, CHR 0xBB,
      CHR 0xE5, CHR 0xBD, CHR 0x95, CHR 0xE5, CHR 0x88, CHR 0x99, CHR 0xE6, CHR 0x8A, CHR 0x9B,
      CHR 0xE5, CHR 0x87, CHR 0xBA, CHR 0xE5, CHR 0xBC, CHR 0x82, CHR 0xE5, CHR 0xB8, CHR 0xB8] @
     ''/'' @
     [CHR 0xE8, CHR 0xBF, CHR 0x94, CHR 0xE5, CHR 0x9B, CHR 0x9E, CHR 0xE9, CHR 0x94, CHR 0x99,
      CHR 0xE8, CHR 0xAF, CHR 0xAF, CHR 0xE4, CHR 0xBF, CHR 0xA1, CHR 0xE6, CHR 0x81, CHR 0xAF]"

definition msg_connect :: string where
  "msg_connect =
     [CHR 0xE5, CHR 0xBB, CHR 0xBA, CHR 0xE7, CHR 0xAB, CHR 0x8B] @ '' TCP/HTTP '' @
     [CHR 0xE8, CHR 0xBF, CHR 0x9E, CHR 0xE6, CHR 0x8E, CHR 0xA5]"

definition msg_login_flow :: string where
  "msg_login_flow =
     [CHR 0xE8, CHR 0xBE, CHR 0x93, CHR 0xE5, CHR 0x85, CHR 0xA5, CHR 0xE8, CHR 0xB4, CHR 0xA6,
      CHR 0xE5, CHR 0x8F, CHR 0xB7, CHR 0xE5, CHR 0xAF, CHR 0x86, CHR 0xE7, CHR 0xA0, CHR 0x81,
      CHR 0xEF, CHR 0xBC, CHR 0x8C, CHR 0xE8, CHR 0xB0, CHR 0x83, CHR 0xE7, CHR 0x94, CHR 0xA8] @
     '' client.login''"

section \<open>The module global \<^verbatim>\<open>DB_PATH\<close>\<close>

text \<open>
  A \<^verbatim>\<open>pathlib\<close> path is its anchor (drive and root, empty for a relative path) and the
  components below it; its name is the last component, or the empty string when there is
  none. \<^verbatim>\<open>with_name\<close> raises \<^verbatim>\<open>ValueError\<close> on a path with an empty name and otherwise
  replaces the last component. Its check of the new name is left out: the module calls it
  with the literal \<^verbatim>\<open>"finance.db"\<close> only, which passes.
\<close>

record Path =
  anchor :: string
  components :: "string list"

definition name :: "Path \<Rightarrow> string" where
  "name p = (if components p = [] then [] else last (components p))"

definition parent :: "Path \<Rightarrow> Path" where
  "parent p = p\<lparr>components := butlast (components p)\<rparr>"

definition with_name :: "Path \<Rightarrow> string \<Rightarrow> error + Path" where
  "with_name p n =
     (if name p = [] then Inl ValueError
      else Inr (p\<lparr>components := butlast (components p) @ [n]\<rparr>))"

text \<open>
  \<^verbatim>\<open>DB_PATH = Path(__file__).with_name("finance.db")\<close> is evaluated once, when the module
  is loaded; \<open>file\<close> is the path of the module's source file.
\<close>

definition DB_PATH :: "Path \<Rightarrow> error + Path" where
  "DB_PATH file = with_name file ''finance.db''"

text \<open>
  What the functions of the module read from their surroundings: the value of the global
  \<^verbatim>\<open>DB_PATH\<close> in the loaded module, \<^verbatim>\<open>sys.argv\<close>, the builtin \<^verbatim>\<open>int\<close> on strings
  (\<open>None\<close> where it raises \<^verbatim>\<open>ValueError\<close>) and the regular expression with which \<^verbatim>\<open>argparse\<close>
  recognises a negative number.
\<close>

record pyenv =
  db_path :: Path
  sys_argv :: "string list"
  int_of_str :: "string \<Rightarrow> int option"
  negative_number_matcher :: "string \<Rightarrow> bool"

section \<open>The data classes\<close>

record User =
  username :: string
  password :: string
  role :: string
  id' :: "int option"

record 'f Bill =
  user_id :: int
  kind :: string
  amount :: 'f
  category :: string
  "notes" :: string
  id' :: "int option"

record Session =
  user :: User
  token :: string

text \<open>
  The constructors that \<^verbatim>\<open>@dataclass\<close> generates assign every parameter to the field of the
  same name. A parameter with a default is an \<open>option\<close>: \<open>None\<close> when the caller leaves it
  out. The type of \<^verbatim>\<open>amount\<close> (a float) is left open, since nothing computes with it.
\<close>

definition User_init :: "string \<Rightarrow> string \<Rightarrow> string \<Rightarrow> int option option \<Rightarrow> error + User" where
  "User_init username_arg password_arg role_arg id_arg =
     Inr \<lparr>username = username_arg, password = password_arg, role = role_arg,
          User.id' = (case id_arg of None \<Rightarrow> None | Some i \<Rightarrow> i)\<rparr>"

definition Bill_init ::
  "int \<Rightarrow> string \<Rightarrow> 'f \<Rightarrow> string \<Rightarrow> string option \<Rightarrow> int option option \<Rightarrow> error + 'f Bill" where
  "Bill_init user_id_arg kind_arg amount_arg category_arg notes_arg id_arg =
     Inr \<lparr>user_id = user_id_arg, kind = kind_arg, amount = amount_arg,
          category = category_arg,
          notes = (case notes_arg of None \<Rightarrow> [] | Some n \<Rightarrow> n),
          Bill.id' = (case id_arg of None \<Rightarrow> None | Some i \<Rightarrow> i)\<rparr>"

section \<open>SQLiteDatabase\<close>

record SQLiteDatabase =
  path :: Path

definition SQLiteDatabase_init :: "pyenv \<Rightarrow> Path option \<Rightarrow> calls \<Rightarrow> (error + SQLiteDatabase) \<times> calls" where
  "SQLiteDatabase_init env path_arg t =
     (Inr \<lparr>path = (case path_arg of None \<Rightarrow> db_path env | Some p \<Rightarrow> p)\<rparr>,
      t @ [''SQLiteDatabase.__init__''])"

definition SQLiteDatabase_initialize :: "SQLiteDatabase \<Rightarrow> calls \<Rightarrow> (SQLiteDatabase, unit) outcome" where
  "SQLiteDatabase_initialize self t =
     (Inl (NotImplementedError (Some msg_initialize)), self, t @ [''SQLiteDatabase.initialize''])"

definition SQLiteDatabase_authenticate ::
  "SQLiteDatabase \<Rightarrow> string \<Rightarrow> string \<Rightarrow> calls \<Rightarrow> (SQLiteDatabase, User option) outcome" where
  "SQLiteDatabase_authenticate self username_arg password_arg t =
     (Inl (NotImplementedError None), self, t @ [''SQLiteDatabase.authenticate''])"

definition SQLiteDatabase_fetch_user_records ::
  "SQLiteDatabase \<Rightarrow> int \<Rightarrow> calls \<Rightarrow> (SQLiteDatabase, 'f Bill list) outcome" where
  "SQLiteDatabase_fetch_user_records self user_id_arg t =
     (Inl (NotImplementedError None), self, t @ [''SQLiteDatabase.fetch_user_records''])"

definition SQLiteDatabase_fetch_all_records ::
  "SQLiteDatabase \<Rightarrow> calls \<Rightarrow> (SQLiteDatabase, 'f Bill list) outcome" where
  "SQLiteDatabase_fetch_all_records self t =
     (Inl (NotImplementedError None), self, t @ [''SQLiteDatabase.fetch_all_records''])"

definition SQLiteDatabase_upsert_record ::
  "SQLiteDatabase \<Rightarrow> 'f Bill \<Rightarrow> calls \<Rightarrow> (SQLiteDatabase, unit) outcome" where
  "SQLiteDatabase_upsert_record self bill t =
     (Inl (NotImplementedError None), self, t @ [''SQLiteDatabase.upsert_record''])"

definition SQLiteDatabase_list_users ::
  "SQLiteDatabase \<Rightarrow> calls \<Rightarrow> (SQLiteDatabase, User list) outcome" where
  "SQLiteDatabase_list_users self t =
     (Inl (NotImplementedError None), self, t @ [''SQLiteDatabase.list_users''])"

definition SQLiteDatabase_create_user ::
  "SQLiteDatabase \<Rightarrow> User \<Rightarrow> calls \<Rightarrow> (SQLiteDatabase, unit) outcome" where
  "SQLiteDatabase_create_user self user_arg t =
     (Inl (NotImplementedError None), self, t @ [''SQLiteDatabase.create_user''])"

section \<open>FinanceServer and FinanceRequestHandler\<close>

text \<open>
  The storage of a server or a handler is any implementation of the protocol
  \<^verbatim>\<open>StorageBackend\<close>, hence a type parameter. Host and port are whatever the caller passes;
  \<^verbatim>\<open>main\<close> passes attributes of the parsed namespace.
\<close>

record 'st FinanceServer =
  host :: pyval
  port :: pyval
  storage :: 'st

definition FinanceServer_init ::
  "pyval \<Rightarrow> pyval \<Rightarrow> 'st \<Rightarrow> calls \<Rightarrow> (error + 'st FinanceServer) \<times> calls" where
  "FinanceServer_init host_arg port_arg storage_arg t =
     (Inr \<lparr>host = host_arg, port = port_arg, storage = storage_arg\<rparr>,
      t @ [''FinanceServer.__init__''])"

definition FinanceServer_start :: "'st FinanceServer \<Rightarrow> calls \<Rightarrow> ('st FinanceServer, unit) outcome" where
  "FinanceServer_start self t =
     (Inl (NotImplementedError (Some msg_start)), self, t @ [''FinanceServer.start''])"

definition FinanceServer_stop :: "'st FinanceServer \<Rightarrow> calls \<Rightarrow> ('st FinanceServer, unit) outcome" where
  "FinanceServer_stop self t =
     (Inl (NotImplementedError None), self, t @ [''FinanceServer.stop''])"

type_synonym payload = "string \<rightharpoonup> string"

record 'st FinanceRequestHandler =
  storage :: 'st
  session :: "Session option"

definition FinanceRequestHandler_init ::
  "'st \<Rightarrow> calls \<Rightarrow> (error + 'st FinanceRequestHandler) \<times> calls" where
  "FinanceRequestHandler_init storage_arg t =
     (Inr \<lparr>FinanceRequestHandler.storage = storage_arg, session = None\<rparr>,
      t @ [''FinanceRequestHandler.__init__''])"

definition dispatch ::
  "'st FinanceRequestHandler \<Rightarrow> payload \<Rightarrow> calls \<Rightarrow> ('st FinanceRequestHandler, payload) outcome" where
  "dispatch self payload_arg t =
     (Inl (NotImplementedError (Some msg_dispatch)), self, t @ [''FinanceRequestHandler.dispatch''])"

definition handle_login ::
  "'st FinanceRequestHandler \<Rightarrow> string \<Rightarrow> string \<Rightarrow> calls \<Rightarrow> ('st FinanceRequestHandler, payload) outcome" where
  "handle_login self username_arg password_arg t =
     (Inl (NotImplementedError None), self, t @ [''FinanceRequestHandler._handle_login''])"

definition handle_logout ::
  "'st FinanceRequestHandler \<Rightarrow> calls \<Rightarrow> ('st FinanceRequestHandler, payload) outcome" where
  "handle_logout self t =
     (Inl (NotImplementedError None), self, t @ [''FinanceRequestHandler._handle_logout''])"

definition handle_fetch ::
  "'st FinanceRequestHandler \<Rightarrow> string \<Rightarrow> calls \<Rightarrow> ('st FinanceRequestHandler, payload) outcome" where
  "handle_fetch self scope t =
     (Inl (NotImplementedError None), self, t @ [''FinanceRequestHandler._handle_fetch''])"

definition handle_update ::
  "'st FinanceRequestHandler \<Rightarrow> payload \<Rightarrow> calls \<Rightarrow> ('st FinanceRequestHandler, payload) outcome" where
  "handle_update self bill_data t =
     (Inl (NotImplementedError None), self, t @ [''FinanceRequestHandler._handle_update''])"

definition handle_admin_actions ::
  "'st FinanceRequestHandler \<Rightarrow> payload \<Rightarrow> calls \<Rightarrow> ('st FinanceRequestHandler, payload) outcome" where
  "handle_admin_actions self payload_arg t =
     (Inl (NotImplementedError (Some msg_admin_actions)), self,
      t @ [''FinanceRequestHandler._handle_admin_actions''])"

definition require_login ::
  "'st FinanceRequestHandler \<Rightarrow> calls \<Rightarrow> ('st FinanceRequestHandler, Session) outcome" where
  "require_login self t =
     (Inl (NotImplementedError (Some msg_require_login)), self,
      t @ [''FinanceRequestHandler._require_login''])"

section \<open>FinanceClient and ClientUI\<close>

record FinanceClient =
  host :: pyval
  port :: pyval

definition FinanceClient_init :: "pyval \<Rightarrow> pyval \<Rightarrow> calls \<Rightarrow> (error + FinanceClient) \<times> calls" where
  "FinanceClient_init host_arg port_arg t =
     (Inr \<lparr>FinanceClient.host = host_arg, FinanceClient.port = port_arg\<rparr>,
      t @ [''FinanceClient.__init__''])"

definition connect :: "FinanceClient \<Rightarrow> calls \<Rightarrow> (FinanceClient, unit) outcome" where
  "connect self t =
     (Inl (NotImplementedError (Some msg_connect)), self, t @ [''FinanceClient.connect''])"

definition login :: "FinanceClient \<Rightarrow> string \<Rightarrow> string \<Rightarrow> calls \<Rightarrow> (FinanceClient, payload) outcome" where
  "login self username_arg password_arg t =
     (Inl (NotImplementedError None), self, t @ [''FinanceClient.login''])"

definition logout :: "FinanceClient \<Rightarrow> calls \<Rightarrow> (FinanceClient, unit) outcome" where
  "logout self t = (Inl (NotImplementedError None), self, t @ [''FinanceClient.logout''])"

definition fetch_records ::
  "FinanceClient \<Rightarrow> string option \<Rightarrow> calls \<Rightarrow> (FinanceClient, 'f Bill list) outcome" where
  "fetch_records self scope_arg t =
     (let scope = (case scope_arg of None \<Rightarrow> ''own'' | Some s \<Rightarrow> s)
      in (Inl (NotImplementedError None), self, t @ [''FinanceClient.fetch_records'']))"

definition update_record :: "FinanceClient \<Rightarrow> 'f Bill \<Rightarrow> calls \<Rightarrow> (FinanceClient, unit) outcome" where
  "update_record self bill t =
     (Inl (NotImplementedError None), self, t @ [''FinanceClient.update_record''])"

definition FinanceClient_list_users :: "FinanceClient \<Rightarrow> calls \<Rightarrow> (FinanceClient, User list) outcome" where
  "FinanceClient_list_users self t =
     (Inl (NotImplementedError None), self, t @ [''FinanceClient.list_users''])"

definition FinanceClient_create_user ::
  "FinanceClient \<Rightarrow> User \<Rightarrow> calls \<Rightarrow> (FinanceClient, unit) outcome" where
  "FinanceClient_create_user self user_arg t =
     (Inl (NotImplementedError None), self, t @ [''FinanceClient.create_user''])"

record ClientUI =
  client :: FinanceClient
  session :: "Session option"

definition ClientUI_init :: "FinanceClient \<Rightarrow> calls \<Rightarrow> (error + ClientUI) \<times> calls" where
  "ClientUI_init client_arg t =
     (Inr \<lparr>client = client_arg, ClientUI.session = None\<rparr>, t @ [''ClientUI.__init__''])"

definition login_flow :: "ClientUI \<Rightarrow> calls \<Rightarrow> (ClientUI, unit) outcome" where
  "login_flow self t =
     (Inl (NotImplementedError (Some msg_login_flow)), self, t @ [''ClientUI._login_flow''])"

definition main_menu :: "ClientUI \<Rightarrow> calls \<Rightarrow> (ClientUI, unit) outcome" where
  "main_menu self t = (Inl (NotImplementedError None), self, t @ [''ClientUI._main_menu''])"

text \<open>\<^verbatim>\<open>run\<close> calls the two methods in turn; an exception of the first one leaves \<^verbatim>\<open>run\<close>.\<close>

definition run :: "ClientUI \<Rightarrow> calls \<Rightarrow> (ClientUI, unit) outcome" where
  "run self t =
     (case login_flow self (t @ [''ClientUI.run'']) of
        (Inl e, self1, t1) \<Rightarrow> (Inl e, self1, t1)
      | (Inr _, self1, t1) \<Rightarrow>
          (case main_menu self1 t1 of
             (Inl e, self2, t2) \<Rightarrow> (Inl e, self2, t2)
           | (Inr _, self2, t2) \<Rightarrow> (Inr (), self2, t2)))"


section \<open>The command-line parser of the standard library\<close>

text \<open>
  \<^verbatim>\<open>parse_args\<close> builds an \<^verbatim>\<open>argparse.ArgumentParser\<close> and calls its method of the same name.
  The library is not part of the module; what follows models the parsing algorithm of
  CPython 3.11 (\<^verbatim>\<open>Lib/argparse.py\<close>), restricted to what the module uses: the prefix
  character \<^verbatim>\<open>-\<close>, abbreviations allowed, the automatic help option, options that store one
  converted argument, and at most one positional action, the one \<^verbatim>\<open>add_subparsers\<close> creates.
  Functions keep the library's names without the leading underscore.

  What the library prints (usage, help, error messages) is not modelled. \<^verbatim>\<open>parser.error\<close>
  ends in \<^verbatim>\<open>sys.exit(2)\<close> and the help action in \<^verbatim>\<open>sys.exit(0)\<close>; an \<^verbatim>\<open>ArgumentError\<close> raised
  while parsing is caught by \<^verbatim>\<open>parse_known_args\<close> and passed to \<^verbatim>\<open>parser.error\<close>, so it is
  modelled as \<open>SystemExit 2\<close> where it is raised.
\<close>

type_synonym namespace = "string \<rightharpoonup> pyval"

datatype action =
    HelpAction "string list"
  | StoreAction "string list" string "string \<Rightarrow> pyval option" pyval

text \<open>
  \<open>HelpAction option_strings\<close> has no destination and takes no argument.
  \<open>StoreAction option_strings dest type default\<close> takes one argument; \<open>type\<close> converts the
  argument string and is \<open>None\<close> where the conversion raises \<^verbatim>\<open>ValueError\<close>.
\<close>

fun option_strings :: "action \<Rightarrow> string list" where
  "option_strings (HelpAction os) = os"
| "option_strings (StoreAction os d ty df) = os"

record subparsers_action =
  dest :: string
  required :: bool
  name_parser_map :: "(string \<times> action list) list"

record ArgumentParser =
  optionals :: "action list"
  subparsers :: "subparsers_action option"

definition error_exit :: "error + 'a" where
  "error_exit = Inl (SystemExit 2)"

definition option_string_actions :: "action list \<Rightarrow> (string \<times> action) list" where
  "option_string_actions acts = concat (map (\<lambda>a. map (\<lambda>s. (s, a)) (option_strings a)) acts)"

text \<open>\<^verbatim>\<open>s.partition('=')\<close>: the text before the first \<^verbatim>\<open>=\<close>, the separator found, the text after.\<close>

definition partition_eq :: "string \<Rightarrow> string \<times> string \<times> string" where
  "partition_eq s =
     (if CHR ''='' \<in> set s
      then (takeWhile (\<lambda>c. c \<noteq> CHR ''='') s, ''='', tl (dropWhile (\<lambda>c. c \<noteq> CHR ''='') s))
      else (s, [], []))"

text \<open>An option tuple: the action, the option string, the separator and the explicit argument.\<close>

type_synonym option_tuple = "action option \<times> string \<times> string option \<times> string option"

definition get_option_tuples :: "action list \<Rightarrow> string \<Rightarrow> error + option_tuple list" where
  "get_option_tuples acts option_string =
     (case option_string of
        c0 # c1 # _ \<Rightarrow>
          if c0 = CHR ''-'' \<and> c1 = CHR ''-'' then
            (case partition_eq option_string of
               (option_prefix, sep, explicit_arg) \<Rightarrow>
                 Inr (map (\<lambda>(s, a). (Some a, s,
                             if sep = [] then None else Some sep,
                             if sep = [] then None else Some explicit_arg))
                        (filter (\<lambda>(s, a). prefix option_prefix s) (option_string_actions acts))))
          else if c0 = CHR ''-'' \<and> c1 \<noteq> CHR ''-'' then
            Inr (concat (map (\<lambda>(s, a).
                   if s = take 2 option_string
                   then [(Some a, s, Some [], Some (drop 2 option_string))]
                   else if prefix option_string s then [(Some a, s, None, None)]
                   else [])
                 (option_string_actions acts)))
          else error_exit
      | _ \<Rightarrow> Inl IndexError)"

definition has_negative_number_optionals :: "pyenv \<Rightarrow> action list \<Rightarrow> bool" where
  "has_negative_number_optionals env acts =
     list_ex (negative_number_matcher env) (map fst (option_string_actions acts))"

definition parse_optional :: "pyenv \<Rightarrow> action list \<Rightarrow> string \<Rightarrow> error + option_tuple option" where
  "parse_optional env acts arg_string =
     (if arg_string = [] then Inr None
      else if hd arg_string \<noteq> CHR ''-'' then Inr None
      else
        (case map_of (option_string_actions acts) arg_string of
           Some a \<Rightarrow> Inr (Some (Some a, arg_string, None, None))
         | None \<Rightarrow>
             if length arg_string = 1 then Inr None
             else
               (case partition_eq arg_string of
                  (option_string, sep, explicit_arg) \<Rightarrow>
                    (case (if sep \<noteq> [] then map_of (option_string_actions acts) option_string
                           else None) of
                       Some a \<Rightarrow> Inr (Some (Some a, option_string, Some sep, Some explicit_arg))
                     | None \<Rightarrow>
                         (case get_option_tuples acts arg_string of
                            Inl e \<Rightarrow> Inl e
                          | Inr option_tuples \<Rightarrow>
                              if length option_tuples > 1 then error_exit
                              else if length option_tuples = 1 then Inr (Some (hd option_tuples))
                              else if negative_number_matcher env arg_string
                                      \<and> \<not> has_negative_number_optionals env acts
                                   then Inr None
                              else if CHR '' '' \<in> set arg_string then Inr None
                              else Inr (Some (None, arg_string, None, None)))))))"

text \<open>
  The pattern of the argument strings: \<open>PatA\<close> for an argument (\<^verbatim>\<open>A\<close>), \<open>PatO\<close> with its
  option tuple for an option (\<^verbatim>\<open>O\<close>), \<open>PatDash\<close> for \<^verbatim>\<open>--\<close>, after which everything is an
  argument.
\<close>

datatype pat = PatA | PatO option_tuple | PatDash

fun is_O :: "pat \<Rightarrow> bool" where
  "is_O (PatO tup) = True"
| "is_O p = False"

fun is_Dash :: "pat \<Rightarrow> bool" where
  "is_Dash PatDash = True"
| "is_Dash p = False"

fun arg_strings_pattern :: "pyenv \<Rightarrow> action list \<Rightarrow> string list \<Rightarrow> error + pat list" where
  "arg_strings_pattern env acts [] = Inr []"
| "arg_strings_pattern env acts (arg_string # rest) =
     (if arg_string = ''--'' then Inr (PatDash # map (\<lambda>_. PatA) rest)
      else
        (case parse_optional env acts arg_string of
           Inl e \<Rightarrow> Inl e
         | Inr tup \<Rightarrow>
             (case arg_strings_pattern env acts rest of
                Inl e \<Rightarrow> Inl e
              | Inr ps \<Rightarrow> Inr ((case tup of None \<Rightarrow> PatA | Some t \<Rightarrow> PatO t) # ps))))"

text \<open>
  How many argument strings an option takes from the pattern that follows it: none for the
  help action, exactly one \<^verbatim>\<open>A\<close> for a storing action.
\<close>

fun match_argument :: "action \<Rightarrow> pat list \<Rightarrow> error + nat" where
  "match_argument (HelpAction os) ps = Inr 0"
| "match_argument (StoreAction os d ty df) ps =
     (case ps of PatA # _ \<Rightarrow> Inr 1 | _ \<Rightarrow> error_exit)"

text \<open>
  The pattern \<^verbatim>\<open>(-*A[-AO]*)\<close> of the subparsers action, matched at the start: it takes
  everything when the first item that is not \<^verbatim>\<open>--\<close> is an argument.
\<close>

definition match_parser :: "pat list \<Rightarrow> nat option" where
  "match_parser ps =
     (case dropWhile is_Dash ps of PatA # _ \<Rightarrow> Some (length ps) | _ \<Rightarrow> None)"

record parse_state =
  namespace :: namespace
  extras :: "string list"
  unrecognized_args :: "string list"
  positionals :: "subparsers_action option"
  seen_actions :: "string list list"
  seen_positional :: bool

text \<open>
  \<^verbatim>\<open>_get_values\<close> with the conversion of \<^verbatim>\<open>_get_value\<close>: a single string for an action that
  takes one argument, a list otherwise.
\<close>

fun get_values_list :: "(string \<Rightarrow> pyval option) \<Rightarrow> string list \<Rightarrow> pyval list option" where
  "get_values_list ty [] = Some []"
| "get_values_list ty (s # ss) =
     (case ty s of
        None \<Rightarrow> None
      | Some v \<Rightarrow> (case get_values_list ty ss of None \<Rightarrow> None | Some vs \<Rightarrow> Some (v # vs)))"

definition get_values :: "(string \<Rightarrow> pyval option) \<Rightarrow> string list \<Rightarrow> pyval option" where
  "get_values ty arg_strings =
     (case arg_strings of
        [arg_string] \<Rightarrow> ty arg_string
      | _ \<Rightarrow> map_option PyList (get_values_list ty arg_strings))"

fun take_action :: "action \<Rightarrow> string list \<Rightarrow> parse_state \<Rightarrow> error + parse_state" where
  "take_action (HelpAction os) argument_strings st = Inl (SystemExit 0)"
| "take_action (StoreAction os d ty df) argument_strings st =
     (case get_values ty argument_strings of
        None \<Rightarrow> error_exit
      | Some v \<Rightarrow>
          Inr (st\<lparr>namespace := (namespace st)(d \<mapsto> v), seen_actions := os # seen_actions st\<rparr>))"

fun take_actions ::
  "(action \<times> string list \<times> string) list \<Rightarrow> parse_state \<Rightarrow> error + parse_state" where
  "take_actions [] st = Inr st"
| "take_actions ((a, args, option_string) # rest) st =
     (case take_action a args st of Inl e \<Rightarrow> Inl e | Inr st' \<Rightarrow> take_actions rest st')"

text \<open>
  The loop of \<^verbatim>\<open>consume_optional\<close>. It starts from the option tuple found at the option's
  index; \<open>arg_string\<close> is the string there, \<open>ps\<close> and \<open>args\<close> are the pattern and the strings
  after it. A single-dash option that takes no argument and has an explicit argument is
  followed by more single-dash options in the same string (\<^verbatim>\<open>-xyz\<close>): the loop goes on with
  the rest of the explicit argument. The result is the actions to take, the number of
  strings consumed and the extras.
\<close>

fun consume_optional_loop ::
  "action list \<Rightarrow> string \<Rightarrow> pat list \<Rightarrow> string list \<Rightarrow>
   action option \<Rightarrow> string \<Rightarrow> string option \<Rightarrow> string option \<Rightarrow>
   (action \<times> string list \<times> string) list \<Rightarrow> string list \<Rightarrow>
   error + ((action \<times> string list \<times> string) list \<times> nat \<times> string list)" where
  "consume_optional_loop acts arg_string ps args None option_string sep explicit_arg
     action_tuples exs =
     Inr ([], 1, exs @ [arg_string])"
| "consume_optional_loop acts arg_string ps args (Some a) option_string sep None
     action_tuples exs =
     (case match_argument a ps of
        Inl e \<Rightarrow> Inl e
      | Inr arg_count \<Rightarrow>
          Inr (action_tuples @ [(a, take arg_count args, option_string)], 1 + arg_count, exs))"
| "consume_optional_loop acts arg_string ps args (Some a) option_string sep (Some [])
     action_tuples exs =
     (case match_argument a [PatA] of
        Inl e \<Rightarrow> Inl e
      | Inr arg_count \<Rightarrow>
          if arg_count = 1 then Inr (action_tuples @ [(a, [[]], option_string)], 1, exs)
          else error_exit)"
| "consume_optional_loop acts arg_string ps args (Some a) option_string sep (Some (c # cs))
     action_tuples exs =
     (case match_argument a [PatA] of
        Inl e \<Rightarrow> Inl e
      | Inr arg_count \<Rightarrow>
          if arg_count = 0 then
            (case option_string of
               c0 # c1 # _ \<Rightarrow>
                 if c1 \<noteq> CHR ''-'' then
                   (if (sep \<noteq> None \<and> sep \<noteq> Some []) \<or> c = CHR ''-'' then error_exit
                    else
                      (case map_of (option_string_actions acts) [c0, c] of
                         Some a' \<Rightarrow>
                           (case cs of
                              [] \<Rightarrow>
                                consume_optional_loop acts arg_string ps args (Some a') [c0, c]
                                  None None (action_tuples @ [(a, [], option_string)]) exs
                            | d # ds \<Rightarrow>
                                if d = CHR ''='' then
                                  consume_optional_loop acts arg_string ps args (Some a') [c0, c]
                                    (Some ''='') (Some ds)
                                    (action_tuples @ [(a, [], option_string)]) exs
                                else
                                  consume_optional_loop acts arg_string ps args (Some a') [c0, c]
                                    (Some []) (Some (d # ds))
                                    (action_tuples @ [(a, [], option_string)]) exs)
                       | None \<Rightarrow>
                           Inr (action_tuples @ [(a, [], option_string)], 1,
                                exs @ [c0 # c # cs])))
                 else error_exit
             | _ \<Rightarrow> Inl IndexError)
          else if arg_count = 1 then
            Inr (action_tuples @ [(a, [c # cs], option_string)], 1, exs)
          else error_exit)"

definition consume_optional ::
  "action list \<Rightarrow> string \<Rightarrow> option_tuple \<Rightarrow> pat list \<Rightarrow> string list \<Rightarrow> parse_state \<Rightarrow>
   error + (parse_state \<times> nat)" where
  "consume_optional acts arg_string tup ps args st =
     (case tup of
        (a, option_string, sep, explicit_arg) \<Rightarrow>
          (case consume_optional_loop acts arg_string ps args a option_string sep explicit_arg
                  [] (extras st) of
             Inl e \<Rightarrow> Inl e
           | Inr (action_tuples, stop, extras') \<Rightarrow>
               (case take_actions action_tuples (st\<lparr>extras := extras'\<rparr>) of
                  Inl e \<Rightarrow> Inl e
                | Inr st' \<Rightarrow> Inr (st', stop))))"

text \<open>
  \<^verbatim>\<open>consume_positionals\<close>: the positional still to be parsed, if any, takes the strings its
  pattern matches; \<open>call\<close> converts and checks them and runs the action.
\<close>

definition consume_positionals ::
  "(subparsers_action \<Rightarrow> string list \<Rightarrow> parse_state \<Rightarrow> error + parse_state) \<Rightarrow>
   parse_state \<Rightarrow> (string \<times> pat) list \<Rightarrow> error + (parse_state \<times> nat)" where
  "consume_positionals call st rest =
     (case positionals st of
        None \<Rightarrow> Inr (st, 0)
      | Some sp \<Rightarrow>
          (case match_parser (map snd rest) of
             None \<Rightarrow> Inr (st, 0)
           | Some n \<Rightarrow>
               (case call sp (map fst (take n rest)) st of
                  Inl e \<Rightarrow> Inl e
                | Inr st' \<Rightarrow> Inr (st'\<lparr>positionals := None, seen_positional := True\<rparr>, n))))"

text \<open>
  The main loop of \<^verbatim>\<open>_parse_known_args\<close> on the strings from \<^verbatim>\<open>start_index\<close> on, each with its
  pattern item. While an option is left, the positionals before the next option are
  consumed, what they leave is added to the extras, and the option is consumed; after the
  last option the positionals are consumed once more and the rest is added to the extras.
\<close>

function consume_loop ::
  "(subparsers_action \<Rightarrow> string list \<Rightarrow> parse_state \<Rightarrow> error + parse_state) \<Rightarrow>
   action list \<Rightarrow> parse_state \<Rightarrow> (string \<times> pat) list \<Rightarrow> error + parse_state" where
  "consume_loop call acts st rest =
     (if \<not> list_ex (\<lambda>x. is_O (snd x)) rest then
        (case consume_positionals call st rest of
           Inl e \<Rightarrow> Inl e
         | Inr (st', n) \<Rightarrow> Inr (st'\<lparr>extras := extras st' @ map fst (drop n rest)\<rparr>))
      else
        (case dropWhile (\<lambda>x. \<not> is_O (snd x)) rest of
           (arg_string, p) # after \<Rightarrow>
             (case p of
                PatO tup \<Rightarrow>
                  (if takeWhile (\<lambda>x. \<not> is_O (snd x)) rest \<noteq> [] then
                     (case consume_positionals call st rest of
                        Inl e \<Rightarrow> Inl e
                      | Inr (st', n) \<Rightarrow>
                          if n > 0 then consume_loop call acts st' (drop n rest)
                          else
                            (case consume_optional acts arg_string tup (map snd after)
                                    (map fst after)
                                    (st'\<lparr>extras := extras st' @
                                        map fst (takeWhile (\<lambda>x. \<not> is_O (snd x)) rest)\<rparr>) of
                               Inl e \<Rightarrow> Inl e
                             | Inr (st'', stop) \<Rightarrow>
                                 consume_loop call acts st'' (drop (stop - 1) after)))
                   else
                     (case consume_optional acts arg_string tup (map snd after) (map fst after)
                             st of
                        Inl e \<Rightarrow> Inl e
                      | Inr (st'', stop) \<Rightarrow> consume_loop call acts st'' (drop (stop - 1) after)))
              | _ \<Rightarrow> Inl IndexError)
         | [] \<Rightarrow> Inl IndexError))"
  by pat_completeness auto
termination
proof (relation "measure (\<lambda>(call, acts, st, rest). length rest)", goal_cases)
  case 1
  show ?case by simp
next
  case (2 call acts st rest)
  then have "rest \<noteq> []" by auto
  with 2 show ?case by simp
next
  case (3 call acts st rest)
  then show ?case
    using length_dropWhile_le [of "\<lambda>x. \<not> is_O (snd x)" rest] by simp
next
  case (4 call acts st rest)
  then show ?case
    using length_dropWhile_le [of "\<lambda>x. \<not> is_O (snd x)" rest] by simp
qed

declare consume_loop.simps [simp del]

text \<open>
  After the loop, an action that was not seen and whose default is a string has the default
  converted by its \<open>type\<close>, if the namespace still holds the default (the library
  compares the two objects by identity; here they are compared as values). The help action
  has no destination in the namespace and is passed over. A conversion that fails is an
  \<^verbatim>\<open>ArgumentError\<close>.
\<close>

fun convert_defaults :: "action list \<Rightarrow> parse_state \<Rightarrow> error + parse_state" where
  "convert_defaults [] st = Inr st"
| "convert_defaults (HelpAction os # rest) st = convert_defaults rest st"
| "convert_defaults (StoreAction os d ty df # rest) st =
     (if os \<notin> set (seen_actions st) then
        (case df of
           PyStr s \<Rightarrow>
             if namespace st d = Some df then
               (case ty s of
                  None \<Rightarrow> error_exit
                | Some v \<Rightarrow> convert_defaults rest (st\<lparr>namespace := (namespace st)(d \<mapsto> v)\<rparr>))
             else convert_defaults rest st
         | _ \<Rightarrow> convert_defaults rest st)
      else convert_defaults rest st)"

text \<open>
  The namespace a parse starts from: the default of every action that has a destination,
  unless an earlier action set that attribute. The subparsers action has the default
  \<^verbatim>\<open>None\<close>.
\<close>

fun action_defaults :: "action list \<Rightarrow> namespace \<Rightarrow> namespace" where
  "action_defaults [] ns = ns"
| "action_defaults (HelpAction os # rest) ns = action_defaults rest ns"
| "action_defaults (StoreAction os d ty df # rest) ns =
     action_defaults rest (if ns d = None then ns(d \<mapsto> df) else ns)"

definition initial_namespace :: "ArgumentParser \<Rightarrow> namespace" where
  "initial_namespace parser =
     (let ns = action_defaults (optionals parser) Map.empty
      in case subparsers parser of
           None \<Rightarrow> ns
         | Some sp \<Rightarrow> if ns (dest sp) = None then ns(dest sp \<mapsto> PyNone) else ns)"

text \<open>
  \<^verbatim>\<open>parse_known_args\<close> for a given way of running the positional action. The result is the
  namespace and the strings that were not recognised. Of the actions modelled only the
  subparsers action can be required; when it is and it was not seen, the parser reports
  the missing argument through \<^verbatim>\<open>parser.error\<close>.
\<close>

definition parse_known_args_with ::
  "(subparsers_action \<Rightarrow> string list \<Rightarrow> parse_state \<Rightarrow> error + parse_state) \<Rightarrow>
   pyenv \<Rightarrow> ArgumentParser \<Rightarrow> string list \<Rightarrow> error + (namespace \<times> string list)" where
  "parse_known_args_with call env parser args =
     (case arg_strings_pattern env (optionals parser) args of
        Inl e \<Rightarrow> Inl e
      | Inr ps \<Rightarrow>
          (case consume_loop call (optionals parser)
                  \<lparr>namespace = initial_namespace parser, extras = [], unrecognized_args = [],
                   positionals = subparsers parser, seen_actions = [],
                   seen_positional = False\<rparr>
                  (zip args ps) of
             Inl e \<Rightarrow> Inl e
           | Inr st \<Rightarrow>
               (case convert_defaults (optionals parser) st of
                  Inl e \<Rightarrow> Inl e
                | Inr st' \<Rightarrow>
                    if (case subparsers parser of
                          None \<Rightarrow> False
                        | Some sp \<Rightarrow> required sp \<and> \<not> seen_positional st')
                    then error_exit
                    else Inr (namespace st', extras st' @ unrecognized_args st'))))"

text \<open>
  A parser made by \<^verbatim>\<open>add_parser\<close> has options only, so its positional action is never run.
\<close>

definition subparser_parse_known_args ::
  "pyenv \<Rightarrow> action list \<Rightarrow> string list \<Rightarrow> error + (namespace \<times> string list)" where
  "subparser_parse_known_args env acts args =
     parse_known_args_with (\<lambda>sp values st. Inr st) env
       \<lparr>optionals = acts, subparsers = None\<rparr> args"

text \<open>
  Taking the subparsers action: the first value must be one of the parser names
  (\<^verbatim>\<open>_check_value\<close>); it is stored under \<open>dest\<close>, the chosen parser parses the other values
  into a namespace of its own, whose attributes are copied, and what it did not recognise
  is kept for the top-level parser.
\<close>

definition SubParsersAction_call ::
  "pyenv \<Rightarrow> subparsers_action \<Rightarrow> string list \<Rightarrow> parse_state \<Rightarrow> error + parse_state" where
  "SubParsersAction_call env sp values st =
     (case values of
        [] \<Rightarrow> Inl IndexError
      | parser_name # arg_strings \<Rightarrow>
          (case map_of (name_parser_map sp) parser_name of
             None \<Rightarrow> error_exit
           | Some acts \<Rightarrow>
               (case subparser_parse_known_args env acts arg_strings of
                  Inl e \<Rightarrow> Inl e
                | Inr (subnamespace, arg_strings') \<Rightarrow>
                    Inr (st\<lparr>namespace := (namespace st)(dest sp \<mapsto> PyStr parser_name) ++ subnamespace,
                            unrecognized_args := unrecognized_args st @ arg_strings'\<rparr>))))"

definition parse_known_args ::
  "pyenv \<Rightarrow> ArgumentParser \<Rightarrow> string list \<Rightarrow> error + (namespace \<times> string list)" where
  "parse_known_args env parser args =
     parse_known_args_with (SubParsersAction_call env) env parser args"

definition ArgumentParser_parse_args ::
  "pyenv \<Rightarrow> ArgumentParser \<Rightarrow> string list option \<Rightarrow> error + namespace" where
  "ArgumentParser_parse_args env parser args =
     (case parse_known_args env parser
             (case args of None \<Rightarrow> drop 1 (sys_argv env) | Some a \<Rightarrow> a) of
        Inl e \<Rightarrow> Inl e
      | Inr (ns, argv) \<Rightarrow> if argv \<noteq> [] then error_exit else Inr ns)"

text \<open>
  Building a parser. \<^verbatim>\<open>ArgumentParser(...)\<close> adds the help option; \<^verbatim>\<open>add_argument\<close> with one
  long option string, a \<open>type\<close> and a default adds a storing action whose destination is the
  option string without its dashes.
\<close>

definition new_ArgumentParser :: ArgumentParser where
  "new_ArgumentParser = \<lparr>optionals = [HelpAction [''-h'', ''--help'']], subparsers = None\<rparr>"

definition add_argument ::
  "ArgumentParser \<Rightarrow> string \<Rightarrow> (string \<Rightarrow> pyval option) \<Rightarrow> pyval \<Rightarrow> ArgumentParser" where
  "add_argument parser option_string ty df =
     parser\<lparr>optionals := optionals parser @
       [StoreAction [option_string]
          (map (\<lambda>c. if c = CHR ''-'' then CHR ''_'' else c)
             (dropWhile (\<lambda>c. c = CHR ''-'') option_string))
          ty df]\<rparr>"

definition add_subparsers ::
  "ArgumentParser \<Rightarrow> string \<Rightarrow> bool \<Rightarrow> (string \<times> ArgumentParser) list \<Rightarrow> ArgumentParser" where
  "add_subparsers parser dest_arg required_arg parsers =
     parser\<lparr>subparsers := Some \<lparr>dest = dest_arg, required = required_arg,
        name_parser_map = map (\<lambda>(n, p). (n, optionals p)) parsers\<rparr>\<rparr>"

text \<open>The two conversions: no \<open>type\<close> keeps the string, \<^verbatim>\<open>type=int\<close> applies the builtin.\<close>

definition type_None :: "string \<Rightarrow> pyval option" where
  "type_None s = Some (PyStr s)"

definition type_int :: "pyenv \<Rightarrow> string \<Rightarrow> pyval option" where
  "type_int env s = map_option PyInt (int_of_str env s)"

section \<open>The entry points\<close>

definition srv :: "pyenv \<Rightarrow> ArgumentParser" where
  "srv env =
     add_argument
       (add_argument new_ArgumentParser ''--host'' type_None (PyStr ''0.0.0.0''))
       ''--port'' (type_int env) (PyInt 9000)"

definition cli :: "pyenv \<Rightarrow> ArgumentParser" where
  "cli env =
     add_argument
       (add_argument new_ArgumentParser ''--host'' type_None (PyStr ''127.0.0.1''))
       ''--port'' (type_int env) (PyInt 9000)"

definition parser :: "pyenv \<Rightarrow> ArgumentParser" where
  "parser env =
     add_subparsers new_ArgumentParser ''mode'' True
       [(''server'', srv env), (''client'', cli env)]"

definition parse_args :: "pyenv \<Rightarrow> string list option \<Rightarrow> error + namespace" where
  "parse_args env argv = ArgumentParser_parse_args env (parser env) argv"

definition getattr :: "namespace \<Rightarrow> string \<Rightarrow> error + pyval" where
  "getattr ns attr = (case ns attr of None \<Rightarrow> Inl AttributeError | Some v \<Rightarrow> Inr v)"

definition run_server :: "pyenv \<Rightarrow> pyval \<Rightarrow> pyval \<Rightarrow> calls \<Rightarrow> (error + unit) \<times> calls" where
  "run_server env host_arg port_arg t =
     (case SQLiteDatabase_init env None t of
        (Inl e, t1) \<Rightarrow> (Inl e, t1)
      | (Inr storage0, t1) \<Rightarrow>
          (case SQLiteDatabase_initialize storage0 t1 of
             (Inl e, storage1, t2) \<Rightarrow> (Inl e, t2)
           | (Inr _, storage1, t2) \<Rightarrow>
               (case FinanceServer_init host_arg port_arg storage1 t2 of
                  (Inl e, t3) \<Rightarrow> (Inl e, t3)
                | (Inr server, t3) \<Rightarrow>
                    (case FinanceServer_start server t3 of
                       (Inl e, server1, t4) \<Rightarrow> (Inl e, t4)
                     | (Inr _, server1, t4) \<Rightarrow> (Inr (), t4)))))"

definition run_client :: "pyval \<Rightarrow> pyval \<Rightarrow> calls \<Rightarrow> (error + unit) \<times> calls" where
  "run_client host_arg port_arg t =
     (case FinanceClient_init host_arg port_arg t of
        (Inl e, t1) \<Rightarrow> (Inl e, t1)
      | (Inr client0, t1) \<Rightarrow>
          (case connect client0 t1 of
             (Inl e, client1, t2) \<Rightarrow> (Inl e, t2)
           | (Inr _, client1, t2) \<Rightarrow>
               (case ClientUI_init client1 t2 of
                  (Inl e, t3) \<Rightarrow> (Inl e, t3)
                | (Inr ui, t3) \<Rightarrow>
                    (case run ui t3 of
                       (Inl e, ui1, t4) \<Rightarrow> (Inl e, t4)
                     | (Inr _, ui1, t4) \<Rightarrow> (Inr (), t4)))))"

definition main :: "pyenv \<Rightarrow> string list option \<Rightarrow> calls \<Rightarrow> (error + unit) \<times> calls" where
  "main env argv t =
     (case parse_args env argv of
        Inl e \<Rightarrow> (Inl e, t)
      | Inr args \<Rightarrow>
          (case getattr args ''mode'' of
             Inl e \<Rightarrow> (Inl e, t)
           | Inr m \<Rightarrow>
               (case getattr args ''host'' of
                  Inl e \<Rightarrow> (Inl e, t)
                | Inr h \<Rightarrow>
                    (case getattr args ''port'' of
                       Inl e \<Rightarrow> (Inl e, t)
                     | Inr p \<Rightarrow>
                         if m = PyStr ''server'' then run_server env h p t
                         else run_client h p t))))"

section \<open>Callers of the handler and of the user interface\<close>

text \<open>
  To speak about "every operation" on a handler or a user interface, a caller is a list of
  method invocations. The caller goes on after an exception, so each invocation runs on the
  object the previous one left behind.
\<close>

datatype handler_call =
    Call_dispatch payload
  | Call_handle_login string string
  | Call_handle_logout
  | Call_handle_fetch string
  | Call_handle_update payload
  | Call_handle_admin_actions payload
  | Call_require_login

fun handler_invoke ::
  "'st FinanceRequestHandler \<Rightarrow> handler_call \<Rightarrow> calls \<Rightarrow> 'st FinanceRequestHandler \<times> calls" where
  "handler_invoke self (Call_dispatch p) t = snd (dispatch self p t)"
| "handler_invoke self (Call_handle_login u p) t = snd (handle_login self u p t)"
| "handler_invoke self Call_handle_logout t = snd (handle_logout self t)"
| "handler_invoke self (Call_handle_fetch s) t = snd (handle_fetch self s t)"
| "handler_invoke self (Call_handle_update b) t = snd (handle_update self b t)"
| "handler_invoke self (Call_handle_admin_actions p) t = snd (handle_admin_actions self p t)"
| "handler_invoke self Call_require_login t = snd (require_login self t)"

datatype ui_call = Call_run | Call_login_flow | Call_main_menu

fun ui_invoke :: "ClientUI \<Rightarrow> ui_call \<Rightarrow> calls \<Rightarrow> ClientUI \<times> calls" where
  "ui_invoke self Call_run t = snd (run self t)"
| "ui_invoke self Call_login_flow t = snd (login_flow self t)"
| "ui_invoke self Call_main_menu t = snd (main_menu self t)"

fun invoke_all :: "('s \<Rightarrow> 'c \<Rightarrow> calls \<Rightarrow> 's \<times> calls) \<Rightarrow> 's \<Rightarrow> 'c list \<Rightarrow> calls \<Rightarrow> 's \<times> calls" where
  "invoke_all f self [] t = (self, t)"
| "invoke_all f self (c # cs) t = (case f self c t of (self', t') \<Rightarrow> invoke_all f self' cs t')"

section \<open>Predicates used in the proofs about the parser\<close>

text \<open>An option tuple is well formed for a parser when its action, if any, is an action of
  the parser under that option string.\<close>

fun wf_tuple :: "action list \<Rightarrow> option_tuple \<Rightarrow> bool" where
  "wf_tuple acts (None, os, sep, ea) = True"
| "wf_tuple acts (Some a, os, sep, ea) = ((os, a) \<in> set (option_string_actions acts))"

fun wf_pat :: "action list \<Rightarrow> pat \<Rightarrow> bool" where
  "wf_pat acts (PatO tup) = wf_tuple acts tup"
| "wf_pat acts p = True"

text \<open>
  An action tuple collected by \<open>consume_optional_loop\<close> is in order when its action belongs
  to the parser and a storing action comes with exactly one argument string.
\<close>

fun ok_tuple :: "action list \<Rightarrow> action \<times> string list \<times> string \<Rightarrow> bool" where
  "ok_tuple acts (HelpAction os, args, s) = (HelpAction os \<in> set acts)"
| "ok_tuple acts (StoreAction os d ty df, args, s) =
     (StoreAction os d ty df \<in> set acts \<and> length args = 1)"

text \<open>
  What \<open>consume_optional_loop\<close> guarantees: it fails with the error exit only; otherwise the
  extras have only grown, and the action tuples are none for an unknown option and the ones
  collected so far followed by at least one new tuple in order for a known option.
\<close>

definition col_ok ::
  "action list \<Rightarrow> (action \<times> string list \<times> string) list \<Rightarrow> string list \<Rightarrow> action option \<Rightarrow>
   error + ((action \<times> string list \<times> string) list \<times> nat \<times> string list) \<Rightarrow> bool" where
  "col_ok acts ats exs ao r =
     (case r of
        Inl e \<Rightarrow> e = SystemExit 2
      | Inr (ats', stop, exs') \<Rightarrow>
          prefix exs exs' \<and>
          (case ao of
             None \<Rightarrow> ats' = []
           | Some a \<Rightarrow> \<exists>new. ats' = ats @ new \<and> new \<noteq> [] \<and> list_all (ok_tuple acts) new))"

text \<open>The two ways in which the parser leaves: the help exit and the error exit.\<close>

definition exit_error :: "error \<Rightarrow> bool" where
  "exit_error e = (e = SystemExit 0 \<or> e = SystemExit 2)"

text \<open>Every option string of the parser has at least two characters.\<close>

definition wf_acts :: "action list \<Rightarrow> bool" where
  "wf_acts acts = list_all (\<lambda>x. 2 \<le> length (fst x)) (option_string_actions acts)"

text \<open>A property of the namespace that every storing action of the parser keeps.\<close>

definition stores_keep :: "action list \<Rightarrow> (namespace \<Rightarrow> bool) \<Rightarrow> bool" where
  "stores_keep acts N =
     (\<forall>os d ty df s v ns. StoreAction os d ty df \<in> set acts \<longrightarrow> ty s = Some v \<longrightarrow> N ns
         \<longrightarrow> N (ns(d \<mapsto> v)))"

text \<open>
  The actions of the parser of a sub-command, as \<^verbatim>\<open>parse_args\<close> builds them, for a given
  default host; the namespaces such a parser produces; the subparsers action of the
  top-level parser.
\<close>

definition sub_actions :: "pyenv \<Rightarrow> string \<Rightarrow> action list" where
  "sub_actions env default_host =
     [HelpAction [''-h'', ''--help''],
      StoreAction [''--host''] ''host'' type_None (PyStr default_host),
      StoreAction [''--port''] ''port'' (type_int env) (PyInt 9000)]"

definition sub_namespace :: "namespace \<Rightarrow> bool" where
  "sub_namespace ns =
     (\<exists>h p. ns = [''host'' \<mapsto> PyStr h, ''port'' \<mapsto> PyInt p])"

definition the_subparsers :: "pyenv \<Rightarrow> subparsers_action" where
  "the_subparsers env =
     \<lparr>dest = ''mode'', required = True,
      name_parser_map = [(''server'', sub_actions env ''0.0.0.0''),
                         (''client'', sub_actions env ''127.0.0.1'')]\<rparr>"


section \<open>An example environment\<close>

text \<open>
  The environment in which the theorems are tried on concrete command lines. Its conversion
  reads plain ASCII decimal numerals, with an optional minus sign, as \<^verbatim>\<open>int\<close> does; it
  rejects every other string, though \<^verbatim>\<open>int\<close> accepts some of them (blanks around the
  numeral, a plus sign, underscores between digits). Its matcher is the library's pattern
  \<^verbatim>\<open>^-\d+$|^-\d*\.\d+$\<close> on ASCII digits.
\<close>

definition is_digit :: "char \<Rightarrow> bool" where
  "is_digit c = (c \<in> set ''0123456789'')"

fun digits_value :: "int \<Rightarrow> string \<Rightarrow> int option" where
  "digits_value acc [] = Some acc"
| "digits_value acc (c # cs) =
     (if is_digit c then digits_value (10 * acc + (int (of_char c) - 48)) cs else None)"

definition decimal_numeral :: "string \<Rightarrow> int option" where
  "decimal_numeral s =
     (case s of
        [] \<Rightarrow> None
      | c # cs \<Rightarrow>
          if c = CHR ''-'' then (if cs = [] then None else map_option uminus (digits_value 0 cs))
          else digits_value 0 s)"

definition negative_number_like :: "string \<Rightarrow> bool" where
  "negative_number_like s =
     (case s of
        [] \<Rightarrow> False
      | c # cs \<Rightarrow>
          c = CHR ''-'' \<and>
          (case dropWhile is_digit cs of
             [] \<Rightarrow> cs \<noteq> []
           | d # es \<Rightarrow> d = CHR ''.'' \<and> es \<noteq> [] \<and> list_all is_digit es))"

definition example_env :: pyenv where
  "example_env =
     \<lparr>db_path = \<lparr>anchor = ''/'', components = [''app'', ''finance.db'']\<rparr>,
      sys_argv = [''main.py'', ''client''],
      int_of_str = decimal_numeral,
      negative_number_matcher = negative_number_like\<rparr>"

section \<open>The skeleton: every method raises\<close>

text \<open>
  C1. Each of the seven storage methods of \<^verbatim>\<open>SQLiteDatabase\<close> (\<^verbatim>\<open>initialize\<close>, \<^verbatim>\<open>authenticate\<close>,
  \<^verbatim>\<open>fetch_user_records\<close>, \<^verbatim>\<open>fetch_all_records\<close>, \<^verbatim>\<open>upsert_record\<close>, \<^verbatim>\<open>list_users\<close>,
  \<^verbatim>\<open>create_user\<close>) raises \<^verbatim>\<open>NotImplementedError\<close> for every database object and every argument;
  none returns a value.
\<close>

theorem SQLiteDatabase_methods_raise:
  "fst (SQLiteDatabase_initialize db t) = Inl (NotImplementedError (Some msg_initialize))
   \<and> fst (SQLiteDatabase_authenticate db username_arg password_arg t) = Inl (NotImplementedError None)
   \<and> fst (SQLiteDatabase_fetch_user_records db user_id_arg t
           :: (error + 'f Bill list) \<times> SQLiteDatabase \<times> calls) = Inl (NotImplementedError None)
   \<and> fst (SQLiteDatabase_fetch_all_records db t
           :: (error + 'f Bill list) \<times> SQLiteDatabase \<times> calls) = Inl (NotImplementedError None)
   \<and> fst (SQLiteDatabase_upsert_record db (bill :: 'f Bill) t) = Inl (NotImplementedError None)
   \<and> fst (SQLiteDatabase_list_users db t) = Inl (NotImplementedError None)
   \<and> fst (SQLiteDatabase_create_user db user_arg t) = Inl (NotImplementedError None)"
  by (simp add: SQLiteDatabase_initialize_def SQLiteDatabase_authenticate_def
      SQLiteDatabase_fetch_user_records_def SQLiteDatabase_fetch_all_records_def
      SQLiteDatabase_upsert_record_def SQLiteDatabase_list_users_def
      SQLiteDatabase_create_user_def)

text \<open>
  C4. Every public method of \<^verbatim>\<open>FinanceClient\<close> (\<^verbatim>\<open>connect\<close>, \<^verbatim>\<open>login\<close>, \<^verbatim>\<open>logout\<close>,
  \<^verbatim>\<open>fetch_records\<close> with or without a scope, \<^verbatim>\<open>update_record\<close>, \<^verbatim>\<open>list_users\<close>, \<^verbatim>\<open>create_user\<close>)
  and of \<^verbatim>\<open>FinanceServer\<close> (\<^verbatim>\<open>start\<close>, \<^verbatim>\<open>stop\<close>) raises \<^verbatim>\<open>NotImplementedError\<close> for every
  receiver and every argument; none returns a value.
\<close>

theorem FinanceClient_FinanceServer_methods_raise:
  "fst (connect c t) = Inl (NotImplementedError (Some msg_connect))
   \<and> fst (login c username_arg password_arg t) = Inl (NotImplementedError None)
   \<and> fst (logout c t) = Inl (NotImplementedError None)
   \<and> fst (fetch_records c scope_arg t
           :: (error + 'f Bill list) \<times> FinanceClient \<times> calls) = Inl (NotImplementedError None)
   \<and> fst (update_record c (bill :: 'f Bill) t) = Inl (NotImplementedError None)
   \<and> fst (FinanceClient_list_users c t) = Inl (NotImplementedError None)
   \<and> fst (FinanceClient_create_user c user_arg t) = Inl (NotImplementedError None)
   \<and> fst (FinanceServer_start (s :: 'st FinanceServer) t) = Inl (NotImplementedError (Some msg_start))
   \<and> fst (FinanceServer_stop s t) = Inl (NotImplementedError None)"
  by (simp add: connect_def login_def logout_def fetch_records_def update_record_def
      FinanceClient_list_users_def FinanceClient_create_user_def FinanceServer_start_def
      FinanceServer_stop_def)

text \<open>
  C5. \<^verbatim>\<open>FinanceRequestHandler.dispatch\<close> raises \<^verbatim>\<open>NotImplementedError\<close> for every payload
  dictionary, whatever its \<^verbatim>\<open>action\<close>, and so does each of \<^verbatim>\<open>_handle_login\<close>,
  \<^verbatim>\<open>_handle_logout\<close>, \<^verbatim>\<open>_handle_fetch\<close>, \<^verbatim>\<open>_handle_update\<close>, \<^verbatim>\<open>_handle_admin_actions\<close> and
  \<^verbatim>\<open>_require_login\<close> for every input; no call returns a response.
\<close>

theorem FinanceRequestHandler_methods_raise:
  "fst (dispatch (h :: 'st FinanceRequestHandler) payload_arg t)
     = Inl (NotImplementedError (Some msg_dispatch))
   \<and> fst (handle_login h username_arg password_arg t) = Inl (NotImplementedError None)
   \<and> fst (handle_logout h t) = Inl (NotImplementedError None)
   \<and> fst (handle_fetch h scope t) = Inl (NotImplementedError None)
   \<and> fst (handle_update h bill_data t) = Inl (NotImplementedError None)
   \<and> fst (handle_admin_actions h payload_arg t) = Inl (NotImplementedError (Some msg_admin_actions))
   \<and> fst (require_login h t) = Inl (NotImplementedError (Some msg_require_login))"
  by (simp add: dispatch_def handle_login_def handle_logout_def handle_fetch_def
      handle_update_def handle_admin_actions_def require_login_def)

text \<open>
  C6. \<^verbatim>\<open>ClientUI.run\<close> raises \<^verbatim>\<open>NotImplementedError\<close> on every invocation, with the message of
  \<^verbatim>\<open>_login_flow\<close>; the calls it makes are \<^verbatim>\<open>run\<close> and \<^verbatim>\<open>_login_flow\<close> and nothing else, so
  \<^verbatim>\<open>_main_menu\<close> is not reached. Invoked directly, \<^verbatim>\<open>_login_flow\<close> and \<^verbatim>\<open>_main_menu\<close> each
  raise \<^verbatim>\<open>NotImplementedError\<close>.
\<close>

theorem ClientUI_run_raises:
  "run ui t = (Inl (NotImplementedError (Some msg_login_flow)), ui,
               t @ [''ClientUI.run'', ''ClientUI._login_flow''])
   \<and> ''ClientUI._main_menu'' \<notin> set (drop (length t) (snd (snd (run ui t))))
   \<and> fst (login_flow ui t) = Inl (NotImplementedError (Some msg_login_flow))
   \<and> fst (main_menu ui t) = Inl (NotImplementedError None)"
  by (simp add: run_def login_flow_def main_menu_def)

section \<open>Construction\<close>

text \<open>
  C7. Constructing a \<^verbatim>\<open>User\<close> or a \<^verbatim>\<open>Bill\<close> succeeds for every choice of field values and
  stores them unchanged, without validation: the user has exactly the given username,
  password and role and the given id, or \<^verbatim>\<open>None\<close> when no id is passed; the bill has exactly
  the given user id, kind, amount and category, the given notes or the empty string, and
  the given id or \<^verbatim>\<open>None\<close>. A role other than \<^verbatim>\<open>admin\<close> and \<^verbatim>\<open>user\<close> and a kind other than
  \<^verbatim>\<open>income\<close> and \<^verbatim>\<open>expense\<close> are stored as given.
\<close>

theorem dataclass_construction:
  "User_init u p r (Some i) = Inr \<lparr>username = u, password = p, role = r, User.id' = i\<rparr>
   \<and> User_init u p r None = Inr \<lparr>username = u, password = p, role = r, User.id' = None\<rparr>
   \<and> Bill_init uid k (a :: 'f) c (Some n) (Some j)
       = Inr \<lparr>user_id = uid, kind = k, amount = a, category = c, notes = n, Bill.id' = j\<rparr>
   \<and> Bill_init uid k a c None None
       = Inr \<lparr>user_id = uid, kind = k, amount = a, category = c, notes = [], Bill.id' = None\<rparr>
   \<and> Bill_init uid k a c (Some n) None
       = Inr \<lparr>user_id = uid, kind = k, amount = a, category = c, notes = n, Bill.id' = None\<rparr>
   \<and> Bill_init uid k a c None (Some j)
       = Inr \<lparr>user_id = uid, kind = k, amount = a, category = c, notes = [], Bill.id' = j\<rparr>
   \<and> map_sum id role (User_init u p ''root'' None) = Inr ''root''
   \<and> map_sum id kind (Bill_init uid ''transfer'' a c None None) = Inr ''transfer''"
  by (simp add: User_init_def Bill_init_def)

lemma handler_invoke_session:
  "FinanceRequestHandler.session (fst (handler_invoke h c t)) = FinanceRequestHandler.session h"
  by (cases c)
    (simp_all add: dispatch_def handle_login_def handle_logout_def handle_fetch_def
      handle_update_def handle_admin_actions_def require_login_def)

lemma ui_invoke_session:
  "ClientUI.session (fst (ui_invoke ui c t)) = ClientUI.session ui"
  by (cases c) (simp_all add: run_def login_flow_def main_menu_def)

lemma invoke_all_handler_session:
  "FinanceRequestHandler.session (fst (invoke_all handler_invoke h cs t))
     = FinanceRequestHandler.session h"
proof (induction cs arbitrary: h t)
  case Nil
  show ?case by simp
next
  case (Cons c cs)
  obtain h' t' where step: "handler_invoke h c t = (h', t')"
    by (cases "handler_invoke h c t")
  have "FinanceRequestHandler.session h' = FinanceRequestHandler.session h"
    using handler_invoke_session [of h c t] step by simp
  with Cons.IH [of h' t'] step show ?case by simp
qed

lemma invoke_all_ui_session:
  "ClientUI.session (fst (invoke_all ui_invoke ui cs t)) = ClientUI.session ui"
proof (induction cs arbitrary: ui t)
  case Nil
  show ?case by simp
next
  case (Cons c cs)
  obtain ui' t' where step: "ui_invoke ui c t = (ui', t')"
    by (cases "ui_invoke ui c t")
  have "ClientUI.session ui' = ClientUI.session ui"
    using ui_invoke_session [of ui c t] step by simp
  with Cons.IH [of ui' t'] step show ?case by simp
qed

text \<open>
  C8. The \<^verbatim>\<open>session\<close> field of a \<^verbatim>\<open>FinanceRequestHandler\<close> and of a \<^verbatim>\<open>ClientUI\<close> is \<^verbatim>\<open>None\<close>
  right after construction and is still \<^verbatim>\<open>None\<close> after any sequence of method invocations
  on the object: no method assigns it.
\<close>

theorem session_never_populated:
  "(\<exists>h t1. FinanceRequestHandler_init (s :: 'st) t = (Inr h, t1)
        \<and> FinanceRequestHandler.session h = None
        \<and> FinanceRequestHandler.session (fst (invoke_all handler_invoke h hcs t1)) = None)
   \<and> (\<exists>ui t1. ClientUI_init c t = (Inr ui, t1)
        \<and> ClientUI.session ui = None
        \<and> ClientUI.session (fst (invoke_all ui_invoke ui ucs t1)) = None)"
  by (simp add: FinanceRequestHandler_init_def ClientUI_init_def
      invoke_all_handler_session invoke_all_ui_session)

text \<open>
  C9. The constructors of \<^verbatim>\<open>SQLiteDatabase\<close>, \<^verbatim>\<open>FinanceServer\<close>, \<^verbatim>\<open>FinanceClient\<close> and
  \<^verbatim>\<open>ClientUI\<close> never raise: each returns an object that holds its arguments unchanged. In a
  module loaded from the source file \<open>file\<close>, a \<^verbatim>\<open>SQLiteDatabase\<close> built without a path has
  the path named \<^verbatim>\<open>finance.db\<close> in the directory of \<open>file\<close>.
\<close>

theorem constructors_store_arguments:
  assumes "DB_PATH file = Inr (db_path env)"
  shows "fst (SQLiteDatabase_init env (Some p) t) = Inr \<lparr>path = p\<rparr>
   \<and> fst (SQLiteDatabase_init env None t) = Inr \<lparr>path = db_path env\<rparr>
   \<and> name (db_path env) = ''finance.db''
   \<and> parent (db_path env) = parent file
   \<and> fst (FinanceServer_init h n (s :: 'st) t)
       = Inr \<lparr>FinanceServer.host = h, FinanceServer.port = n, FinanceServer.storage = s\<rparr>
   \<and> fst (FinanceClient_init h n t) = Inr \<lparr>FinanceClient.host = h, FinanceClient.port = n\<rparr>
   \<and> fst (ClientUI_init c t) = Inr \<lparr>client = c, ClientUI.session = None\<rparr>"
proof -
  from assms have "name file \<noteq> []"
    and d: "db_path env = file\<lparr>components := butlast (components file) @ [''finance.db'']\<rparr>"
    by (auto simp: DB_PATH_def with_name_def split: if_splits)
  have "name (db_path env) = ''finance.db''"
    by (simp add: d name_def)
  moreover have "parent (db_path env) = parent file"
    by (simp add: d parent_def)
  ultimately show ?thesis
    by (simp add: SQLiteDatabase_init_def FinanceServer_init_def FinanceClient_init_def
        ClientUI_init_def)
qed

theorem constructors_store_arguments_witness:
  "DB_PATH \<lparr>anchor = ''/'', components = [''app'', ''main.py'']\<rparr> = Inr (db_path example_env)
   \<and> fst (SQLiteDatabase_init example_env None [])
       = Inr \<lparr>path = \<lparr>anchor = ''/'', components = [''app'', ''finance.db'']\<rparr>\<rparr>
   \<and> name (db_path example_env) = ''finance.db''
   \<and> parent (db_path example_env) = parent \<lparr>anchor = ''/'', components = [''app'', ''main.py'']\<rparr>"
proof -
  have h: "DB_PATH \<lparr>anchor = ''/'', components = [''app'', ''main.py'']\<rparr>
             = Inr (db_path example_env)"
    by (simp add: DB_PATH_def with_name_def name_def example_env_def)
  show ?thesis
    using h constructors_store_arguments [OF h,
        of "\<lparr>anchor = [], components = [''data.db'']\<rparr>" "[]" PyNone PyNone "()"
        "\<lparr>FinanceClient.host = PyNone, FinanceClient.port = PyNone\<rparr>"]
    by (simp add: example_env_def)
qed

section \<open>Properties of the parser\<close>

lemma get_option_tuples_mem:
  assumes "get_option_tuples acts s = Inr tups" and "(a', os', sep, ea) \<in> set tups"
  shows "\<exists>a. a' = Some a \<and> (os', a) \<in> set (option_string_actions acts)"
  using assms
  by (auto simp: get_option_tuples_def error_exit_def split: list.splits if_splits prod.splits)

lemma get_option_tuples_Inr:
  assumes "hd s = CHR ''-''" and "2 \<le> length s"
  shows "\<exists>tups. get_option_tuples acts s = Inr tups"
proof -
  from assms obtain c1 cs where "s = CHR ''-'' # c1 # cs"
    by (cases s; cases "tl s") auto
  then show ?thesis
    by (cases "partition_eq s") (auto simp: get_option_tuples_def)
qed

lemma parse_optional_error:
  assumes "parse_optional env acts s = Inl e"
  shows "e = SystemExit 2"
proof -
  have "s \<noteq> []" "hd s = CHR ''-''" "length s \<noteq> 1"
    using assms by (auto simp: parse_optional_def split: if_splits option.splits)
  then have "2 \<le> length s" by (cases s; cases "tl s") auto
  with \<open>hd s = CHR ''-''\<close> obtain tups where "get_option_tuples acts s = Inr tups"
    using get_option_tuples_Inr by blast
  with assms show ?thesis
    by (auto simp: parse_optional_def error_exit_def split: if_splits option.splits prod.splits)
qed

lemma parse_optional_mem:
  assumes "parse_optional env acts s = Inr (Some (Some a, os', sep, ea))"
  shows "(os', a) \<in> set (option_string_actions acts)"
proof -
  consider (exact) "map_of (option_string_actions acts) os' = Some a"
    | (abbrev) tups where "get_option_tuples acts s = Inr tups" "length tups = 1"
        "hd tups = (Some a, os', sep, ea)"
    using assms
    by (auto simp: parse_optional_def error_exit_def
        split: if_splits option.splits prod.splits sum.splits)
  then show ?thesis
  proof cases
    case exact
    then show ?thesis by (rule map_of_SomeD)
  next
    case abbrev
    then have "(Some a, os', sep, ea) \<in> set tups" by (cases tups) auto
    with abbrev(1) show ?thesis using get_option_tuples_mem by blast
  qed
qed

lemma arg_strings_pattern_error:
  "arg_strings_pattern env acts args = Inl e \<Longrightarrow> e = SystemExit 2"
proof (induction args)
  case Nil
  then show ?case by simp
next
  case (Cons s args)
  then show ?case
    by (auto split: if_splits sum.splits dest: parse_optional_error)
qed

lemma arg_strings_pattern_length:
  "arg_strings_pattern env acts args = Inr ps \<Longrightarrow> length ps = length args"
proof (induction args arbitrary: ps)
  case Nil
  then show ?case by simp
next
  case (Cons s args)
  then show ?case
    by (auto split: if_splits sum.splits)
qed

lemma parse_optional_wf:
  "parse_optional env acts s = Inr (Some tup) \<Longrightarrow> wf_tuple acts tup"
  by (cases tup; cases "fst tup") (auto dest: parse_optional_mem)

lemma arg_strings_pattern_wf:
  "arg_strings_pattern env acts args = Inr ps \<Longrightarrow> list_all (wf_pat acts) ps"
proof (induction args arbitrary: ps)
  case Nil
  then show ?case by simp
next
  case (Cons s args)
  show ?case
  proof (cases "s = ''--''")
    case True
    with Cons.prems show ?thesis by (auto simp: list_all_iff)
  next
    case False
    with Cons.prems obtain tup ps' where
      po: "parse_optional env acts s = Inr tup" and
      rec: "arg_strings_pattern env acts args = Inr ps'" and
      ps: "ps = (case tup of None \<Rightarrow> PatA | Some t \<Rightarrow> PatO t) # ps'"
      by (auto split: sum.splits)
    have "wf_pat acts (case tup of None \<Rightarrow> PatA | Some t \<Rightarrow> PatO t)"
      using po by (cases tup) (simp_all add: parse_optional_wf)
    with Cons.IH [OF rec] ps show ?thesis by simp
  qed
qed

lemma dropWhile_list_ex:
  assumes "list_ex P xs"
  obtains x after where "dropWhile (\<lambda>x. \<not> P x) xs = x # after" and "P x"
proof -
  from assms have "dropWhile (\<lambda>x. \<not> P x) xs \<noteq> []"
    by (auto simp: list_ex_iff dropWhile_eq_Nil_conv)
  then obtain x after where eq: "dropWhile (\<lambda>x. \<not> P x) xs = x # after"
    by (cases "dropWhile (\<lambda>x. \<not> P x) xs") auto
  then have "P x" using hd_dropWhile [of "\<lambda>x. \<not> P x" xs] by simp
  with eq show ?thesis by (rule that)
qed

lemma consume_loop_rule:
  assumes opt: "\<And>st arg tup after. Q st \<Longrightarrow> wf_tuple acts tup \<Longrightarrow>
            (case consume_optional acts arg tup (map snd after) (map fst after) st of
               Inl e \<Rightarrow> E e | Inr (st', stop) \<Rightarrow> Q st')"
    and ext: "\<And>st ys. Q st \<Longrightarrow> Q (st\<lparr>extras := extras st @ ys\<rparr>)"
    and pos: "\<And>st rest. Q st \<Longrightarrow>
            (case consume_positionals call st rest of Inl e \<Rightarrow> E e | Inr (st', n) \<Rightarrow> Q st')"
  shows "Q st \<Longrightarrow> list_all (\<lambda>x. wf_pat acts (snd x)) rest \<Longrightarrow>
         (case consume_loop call acts st rest of Inl e \<Rightarrow> E e | Inr st' \<Rightarrow> Q st')"
proof (induction rest arbitrary: st rule: length_induct)
  case (1 rest)
  note IH = "1.IH" [rule_format]
  show ?case
  proof (cases "list_ex (\<lambda>x. is_O (snd x)) rest")
    case False
    then have eq: "consume_loop call acts st rest =
        (case consume_positionals call st rest of
           Inl e \<Rightarrow> Inl e
         | Inr (st', n) \<Rightarrow> Inr (st'\<lparr>extras := extras st' @ map fst (drop n rest)\<rparr>))"
      by (subst consume_loop.simps) simp
    show ?thesis
      using pos [OF "1.prems"(1), of rest] ext
      by (auto simp: eq split: sum.splits prod.splits)
  next
    case True
    then obtain x after where dw: "dropWhile (\<lambda>x. \<not> is_O (snd x)) rest = x # after"
      and "is_O (snd x)"
      by (rule dropWhile_list_ex)
    then obtain arg tup where x: "x = (arg, PatO tup)"
      by (cases x; cases "snd x") auto
    have "x \<in> set rest"
      using dw by (metis list.set_intros(1) set_dropWhileD)
    with "1.prems"(2) x have wf: "wf_tuple acts tup"
      by (auto simp: list_all_iff)
    have len: "length after < length rest"
      using dw length_dropWhile_le [of "\<lambda>x. \<not> is_O (snd x)" rest] by simp
    have wf_after: "list_all (\<lambda>x. wf_pat acts (snd x)) (drop k after)" for k
    proof -
      have "set (drop k after) \<subseteq> set rest"
        using dw by (metis set_drop_subset set_dropWhileD set_subset_Cons subset_iff subsetI)
      with "1.prems"(2) show ?thesis by (auto simp: list_all_iff)
    qed
    have step: "(case (case consume_optional acts arg tup (map snd after) (map fst after) st0 of
                   Inl e \<Rightarrow> Inl e
                 | Inr (st'', stop) \<Rightarrow> consume_loop call acts st'' (drop (stop - 1) after)) of
                 Inl e \<Rightarrow> E e | Inr st' \<Rightarrow> Q st')" if "Q st0" for st0
    proof (cases "consume_optional acts arg tup (map snd after) (map fst after) st0")
      case (Inl e)
      with opt [OF that wf, of arg after] show ?thesis by simp
    next
      case (Inr r)
      obtain st'' stop where r: "r = (st'', stop)" by (cases r)
      with Inr opt [OF that wf, of arg after] have "Q st''" by simp
      moreover have "length (drop (stop - 1) after) < length rest" using len by simp
      ultimately show ?thesis
        using IH [of "drop (stop - 1) after" st''] wf_after Inr r by simp
    qed
    show ?thesis
    proof (cases "takeWhile (\<lambda>x. \<not> is_O (snd x)) rest = []")
      case tw: True
      have eq: "consume_loop call acts st rest =
          (case consume_optional acts arg tup (map snd after) (map fst after) st of
             Inl e \<Rightarrow> Inl e
           | Inr (st'', stop) \<Rightarrow> consume_loop call acts st'' (drop (stop - 1) after))"
        using True dw x tw by (subst consume_loop.simps) simp
      show ?thesis unfolding eq by (rule step [OF "1.prems"(1)])
    next
      case tw: False
      show ?thesis
      proof (cases "consume_positionals call st rest")
        case (Inl e)
        have "consume_loop call acts st rest = Inl e"
          using True dw x tw Inl by (subst consume_loop.simps) simp
        with pos [OF "1.prems"(1), of rest] Inl show ?thesis by simp
      next
        case (Inr r)
        obtain st1 n where r: "r = (st1, n)" by (cases r)
        with Inr pos [OF "1.prems"(1), of rest] have Q1: "Q st1" by simp
        show ?thesis
        proof (cases "0 < n")
          case n: True
          have eq: "consume_loop call acts st rest = consume_loop call acts st1 (drop n rest)"
            using True dw x tw Inr r n by (subst consume_loop.simps) simp
          from True have "rest \<noteq> []" by auto
          with n have "length (drop n rest) < length rest" by simp
          moreover have "list_all (\<lambda>x. wf_pat acts (snd x)) (drop n rest)"
            using "1.prems"(2) by (auto simp: list_all_iff dest: in_set_dropD)
          ultimately show ?thesis unfolding eq using IH Q1 by blast
        next
          case n: False
          have eq: "consume_loop call acts st rest =
              (case consume_optional acts arg tup (map snd after) (map fst after)
                      (st1\<lparr>extras := extras st1 @
                          map fst (takeWhile (\<lambda>x. \<not> is_O (snd x)) rest)\<rparr>) of
                 Inl e \<Rightarrow> Inl e
               | Inr (st'', stop) \<Rightarrow> consume_loop call acts st'' (drop (stop - 1) after))"
            using True dw x tw Inr r n by (subst consume_loop.simps) simp
          show ?thesis unfolding eq by (rule step [OF ext [OF Q1]])
        qed
      qed
    qed
  qed
qed

lemma option_string_actions_mem:
  "(s, a) \<in> set (option_string_actions acts) \<Longrightarrow> a \<in> set acts"
  by (auto simp: option_string_actions_def)

lemma col_ok_extend:
  assumes "col_ok acts (ats @ [x]) exs (Some a') r" and "ok_tuple acts x"
  shows "col_ok acts ats exs (Some a) r"
  using assms
  by (auto simp: col_ok_def split: sum.splits)

lemma consume_optional_loop_ok:
  assumes wfa: "\<And>s a. (s, a) \<in> set (option_string_actions acts) \<Longrightarrow> 2 \<le> length s"
    and len: "length ps = length args"
  shows "(\<And>a. ao = Some a \<Longrightarrow> (os, a) \<in> set (option_string_actions acts)) \<Longrightarrow>
         col_ok acts ats exs ao (consume_optional_loop acts arg ps args ao os sep ea ats exs)"
proof (induction "case ea of None \<Rightarrow> 0 | Some e \<Rightarrow> Suc (length e)"
    arbitrary: ao os sep ea ats exs rule: less_induct)
  case less
  show ?case
  proof (cases ao)
    case None
    then show ?thesis by (simp add: col_ok_def)
  next
    case (Some a)
    with less.prems have mem: "(os, a) \<in> set (option_string_actions acts)" by simp
    then have a_in: "a \<in> set acts" by (rule option_string_actions_mem)
    from wfa [OF mem] obtain c0 c1 r where os: "os = c0 # c1 # r"
      by (cases os; cases "tl os") auto
    show ?thesis
    proof (cases ea)
      case None
      show ?thesis
      proof (cases a)
        case (HelpAction hs)
        with a_in show ?thesis
          by (simp add: Some None col_ok_def)
      next
        case (StoreAction ss d ty df)
        show ?thesis
        proof (cases ps)
          case Nil
          then show ?thesis
            by (simp add: Some None StoreAction col_ok_def error_exit_def)
        next
          case (Cons p ps')
          with len obtain x args' where args: "args = x # args'" by (cases args) auto
          show ?thesis
            by (cases p)
              (use a_in in \<open>simp_all add: Some None StoreAction Cons args col_ok_def error_exit_def\<close>)
        qed
      qed
    next
      case ea: (Some e)
      show ?thesis
      proof (cases e)
        case Nil
        show ?thesis
          by (cases a) (use a_in in \<open>simp_all add: Some ea Nil col_ok_def error_exit_def\<close>)
      next
        case (Cons c cs)
        show ?thesis
        proof (cases a)
          case (StoreAction ss d ty df)
          with a_in show ?thesis
            by (simp add: Some ea Cons os col_ok_def)
        next
          case (HelpAction hs)
          have okx: "ok_tuple acts (a, [], os)" using a_in HelpAction by simp
          show ?thesis
          proof (cases "c1 \<noteq> CHR ''-'' \<and> \<not> ((sep \<noteq> None \<and> sep \<noteq> Some []) \<or> c = CHR ''-'')")
            case False
            then show ?thesis
              by (auto simp: Some ea Cons os HelpAction col_ok_def error_exit_def)
          next
            case True
            show ?thesis
            proof (cases "map_of (option_string_actions acts) [c0, c]")
              case None
              with True okx show ?thesis
                by (auto simp: Some ea Cons os HelpAction col_ok_def)
            next
              case m: (Some a')
              then have mem': "([c0, c], a') \<in> set (option_string_actions acts)"
                by (rule map_of_SomeD)
              have rec: "col_ok acts (ats @ [(a, [], os)]) exs (Some a')
                 (consume_optional_loop acts arg ps args (Some a') [c0, c] sep' ea'
                    (ats @ [(a, [], os)]) exs)"
                if "(case ea' of None \<Rightarrow> 0 | Some e \<Rightarrow> Suc (length e)) < Suc (length e)"
                for sep' ea'
                using less.hyps [of ea' "Some a'" "[c0, c]" "ats @ [(a, [], os)]" exs sep']
                  that mem' ea by simp
              show ?thesis
              proof (cases cs)
                case Nil
                have "col_ok acts (ats @ [(a, [], os)]) exs (Some a')
                   (consume_optional_loop acts arg ps args (Some a') [c0, c] None None
                      (ats @ [(a, [], os)]) exs)"
                  by (rule rec) simp
                then have "col_ok acts ats exs (Some a)
                   (consume_optional_loop acts arg ps args (Some a') [c0, c] None None
                      (ats @ [(a, [], os)]) exs)"
                  using okx by (rule col_ok_extend)
                with True m show ?thesis
                  unfolding Some ea Cons os HelpAction Nil
                  by (subst consume_optional_loop.simps(4))
                    (auto simp del: consume_optional_loop.simps)
              next
                case cs: (Cons d ds)
                show ?thesis
                proof (cases "d = CHR ''=''")
                  case eq: True
                  have "col_ok acts (ats @ [(a, [], os)]) exs (Some a')
                     (consume_optional_loop acts arg ps args (Some a') [c0, c] (Some ''='')
                        (Some ds) (ats @ [(a, [], os)]) exs)"
                    by (rule rec) (simp add: Cons cs)
                  then have "col_ok acts ats exs (Some a)
                     (consume_optional_loop acts arg ps args (Some a') [c0, c] (Some ''='')
                        (Some ds) (ats @ [(a, [], os)]) exs)"
                    using okx by (rule col_ok_extend)
                  with True m eq show ?thesis
                    unfolding Some ea Cons os HelpAction cs
                    by (subst consume_optional_loop.simps(4))
                      (auto simp del: consume_optional_loop.simps)
                next
                  case neq: False
                  have "col_ok acts (ats @ [(a, [], os)]) exs (Some a')
                     (consume_optional_loop acts arg ps args (Some a') [c0, c] (Some [])
                        (Some (d # ds)) (ats @ [(a, [], os)]) exs)"
                    by (rule rec) (simp add: Cons cs)
                  then have "col_ok acts ats exs (Some a)
                     (consume_optional_loop acts arg ps args (Some a') [c0, c] (Some [])
                        (Some (d # ds)) (ats @ [(a, [], os)]) exs)"
                    using okx by (rule col_ok_extend)
                  with True m neq show ?thesis
                    unfolding Some ea Cons os HelpAction cs
                    by (subst consume_optional_loop.simps(4))
                      (auto simp del: consume_optional_loop.simps)
                qed
              qed
            qed
          qed
        qed
      qed
    qed
  qed
qed

lemma wf_actsD: "wf_acts acts \<Longrightarrow> (s, a) \<in> set (option_string_actions acts) \<Longrightarrow> 2 \<le> length s"
  by (auto simp: wf_acts_def list_all_iff)

lemma take_action_frame:
  "take_action a args st = Inr st' \<Longrightarrow>
     extras st' = extras st \<and> unrecognized_args st' = unrecognized_args st
     \<and> positionals st' = positionals st \<and> seen_positional st' = seen_positional st"
  by (cases a) (auto simp: error_exit_def split: option.splits)

lemma take_action_error: "take_action a args st = Inl e \<Longrightarrow> exit_error e"
  by (cases a) (auto simp: error_exit_def exit_error_def split: option.splits)

lemma take_actions_frame:
  "take_actions ats st = Inr st' \<Longrightarrow>
     extras st' = extras st \<and> unrecognized_args st' = unrecognized_args st
     \<and> positionals st' = positionals st \<and> seen_positional st' = seen_positional st"
proof (induction ats arbitrary: st)
  case Nil
  then show ?case by simp
next
  case (Cons x ats)
  obtain a args os where x: "x = (a, args, os)" by (cases x)
  from Cons.prems x obtain st1 where
    s1: "take_action a args st = Inr st1" and s2: "take_actions ats st1 = Inr st'"
    by (auto split: sum.splits)
  from take_action_frame [OF s1] Cons.IH [OF s2] show ?case by simp
qed

lemma take_actions_error: "take_actions ats st = Inl e \<Longrightarrow> exit_error e"
proof (induction ats arbitrary: st)
  case Nil
  then show ?case by simp
next
  case (Cons x ats)
  obtain a args os where x: "x = (a, args, os)" by (cases x)
  show ?case
  proof (cases "take_action a args st")
    case (Inl e')
    with Cons.prems x have "e = e'" by simp
    with Inl show ?thesis by (auto dest: take_action_error)
  next
    case (Inr st1)
    with Cons.prems x have "take_actions ats st1 = Inl e" by simp
    then show ?thesis by (rule Cons.IH)
  qed
qed

lemma take_action_keeps:
  assumes "stores_keep acts N" and "ok_tuple acts (a, args, os)"
    and "take_action a args st = Inr st'" and "N (namespace st)"
  shows "N (namespace st')"
proof (cases a)
  case (HelpAction hs)
  with assms(3) show ?thesis by simp
next
  case (StoreAction ss d ty df)
  with assms(2) obtain s where args: "args = [s]" and mem: "StoreAction ss d ty df \<in> set acts"
    by (cases args) auto
  from assms(3) StoreAction args obtain v where "ty s = Some v"
    and "st' = st\<lparr>namespace := (namespace st)(d \<mapsto> v), seen_actions := ss # seen_actions st\<rparr>"
    by (auto simp: get_values_def error_exit_def split: option.splits)
  with assms(1,4) mem show ?thesis
    unfolding stores_keep_def by simp blast
qed

lemma take_actions_keeps:
  assumes "stores_keep acts N"
  shows "list_all (ok_tuple acts) ats \<Longrightarrow> take_actions ats st = Inr st' \<Longrightarrow> N (namespace st)
         \<Longrightarrow> N (namespace st')"
proof (induction ats arbitrary: st)
  case Nil
  then show ?case by simp
next
  case (Cons x ats)
  obtain a args os where x: "x = (a, args, os)" by (cases x)
  from Cons.prems(2) x obtain st1 where
    s1: "take_action a args st = Inr st1" and s2: "take_actions ats st1 = Inr st'"
    by (auto split: sum.splits)
  from Cons.prems(1) x have ok: "ok_tuple acts (a, args, os)" and oks: "list_all (ok_tuple acts) ats"
    by simp_all
  from take_action_keeps [OF assms ok s1 Cons.prems(3)] have "N (namespace st1)" .
  from Cons.IH [OF oks s2 this] show ?case .
qed

text \<open>What one call of \<open>consume_optional\<close> does.\<close>

lemma consume_optional_cases:
  assumes wfa: "wf_acts acts" and len: "length ps = length args" and wf: "wf_tuple acts tup"
  obtains (error) e where "consume_optional acts arg tup ps args st = Inl e" "exit_error e"
  | (unknown) "fst tup = None"
      "consume_optional acts arg tup ps args st = Inr (st\<lparr>extras := extras st @ [arg]\<rparr>, 1)"
  | (taken) a ats stop st' where "fst tup = Some a" "ats \<noteq> []" "list_all (ok_tuple acts) ats"
      "consume_optional acts arg tup ps args st = Inr (st', stop)"
      "take_actions ats (st\<lparr>extras := extras st'\<rparr>) = Inr st'"
      "prefix (extras st) (extras st')"
proof -
  obtain ao os sep ea where tup: "tup = (ao, os, sep, ea)" by (cases tup)
  let ?r = "consume_optional_loop acts arg ps args ao os sep ea [] (extras st)"
  have ok: "col_ok acts [] (extras st) ao ?r"
  proof (rule consume_optional_loop_ok [OF _ len])
    show "2 \<le> length s" if "(s, a) \<in> set (option_string_actions acts)" for s a
      using wfa that by (rule wf_actsD)
    show "(os, a) \<in> set (option_string_actions acts)" if "ao = Some a" for a
      using wf tup that by simp
  qed
  show ?thesis
  proof (cases ?r)
    case (Inl e)
    with ok have "e = SystemExit 2" by (simp add: col_ok_def)
    with Inl tup show ?thesis
      by (intro error [of e]) (simp_all add: consume_optional_def exit_error_def)
  next
    case (Inr r)
    obtain ats stop exs' where r: "r = (ats, stop, exs')" by (cases r)
    show ?thesis
    proof (cases ao)
      case None
      with Inr r have "ats = []" "stop = 1" "exs' = extras st @ [arg]" by simp_all
      with Inr r tup None show ?thesis
        by (intro unknown) (simp_all add: consume_optional_def)
    next
      case (Some a)
      with ok Inr r have ats: "ats \<noteq> []" "list_all (ok_tuple acts) ats"
        and pre: "prefix (extras st) exs'"
        by (auto simp: col_ok_def)
      show ?thesis
      proof (cases "take_actions ats (st\<lparr>extras := exs'\<rparr>)")
        case (Inl e)
        then have "exit_error e" by (rule take_actions_error)
        with Inl Inr r tup show ?thesis
          by (intro error [of e]) (simp_all add: consume_optional_def)
      next
        case st': (Inr st')
        from take_actions_frame [OF st'] have ex: "extras st' = exs'" by simp
        show ?thesis
        proof (rule taken [of a ats st' stop])
          show "fst tup = Some a" using tup Some by simp
          show "ats \<noteq> []" "list_all (ok_tuple acts) ats" by (rule ats)+
          show "consume_optional acts arg tup ps args st = Inr (st', stop)"
            using Inr r tup st' by (simp add: consume_optional_def)
          show "take_actions ats (st\<lparr>extras := extras st'\<rparr>) = Inr st'"
            using st' ex by simp
          show "prefix (extras st) (extras st')" using pre ex by simp
        qed
      qed
    qed
  qed
qed

lemma match_parser_Some: "match_parser ps = Some n \<Longrightarrow> n = length ps \<and> ps \<noteq> []"
  by (auto simp: match_parser_def split: list.splits pat.splits)

lemma consume_positionals_cases:
  obtains (nothing) "consume_positionals call st rest = Inr (st, 0)"
      "positionals st = None \<or> match_parser (map snd rest) = None"
  | (called) sp where "positionals st = Some sp" "rest \<noteq> []"
      "match_parser (map snd rest) = Some (length rest)"
      "consume_positionals call st rest =
         (case call sp (map fst rest) st of
            Inl e \<Rightarrow> Inl e
          | Inr st' \<Rightarrow> Inr (st'\<lparr>positionals := None, seen_positional := True\<rparr>, length rest))"
proof (cases "positionals st")
  case None
  show ?thesis by (rule nothing) (simp_all add: consume_positionals_def None)
next
  case (Some sp)
  show ?thesis
  proof (cases "match_parser (map snd rest)")
    case None
    show ?thesis by (rule nothing) (simp_all add: consume_positionals_def Some None)
  next
    case m: (Some n)
    from match_parser_Some [OF m] have n: "n = length rest" and ne: "rest \<noteq> []" by auto
    show ?thesis
      by (rule called [of sp]) (use Some m n ne in \<open>simp_all add: consume_positionals_def\<close>)
  qed
qed

lemma consume_loop_error:
  assumes wfa: "wf_acts acts"
    and call_err: "\<And>sp vs st e. vs \<noteq> [] \<Longrightarrow> call sp vs st = Inl e \<Longrightarrow> exit_error e"
    and wf: "list_all (\<lambda>x. wf_pat acts (snd x)) rest"
    and res: "consume_loop call acts st rest = Inl e"
  shows "exit_error e"
proof -
  have "case consume_loop call acts st rest of Inl e \<Rightarrow> exit_error e | Inr st' \<Rightarrow> True"
  proof (rule consume_loop_rule [where Q = "\<lambda>s :: parse_state. True" and E = exit_error])
    fix s arg tup after
    assume wft: "wf_tuple acts tup"
    have len: "length (map snd after) = length (map fst after)" for after :: "(string \<times> pat) list"
      by simp
    show "case consume_optional acts arg tup (map snd after) (map fst after) s of
            Inl e \<Rightarrow> exit_error e | Inr (st', stop) \<Rightarrow> True"
      by (rule consume_optional_cases [OF wfa len [of after] wft, where arg = arg and st = s])
        simp_all
  next
    fix s rest'
    show "case consume_positionals call s rest' of Inl e \<Rightarrow> exit_error e | Inr (st', n) \<Rightarrow> True"
    proof (cases rule: consume_positionals_cases [of call s rest'])
      case nothing
      then show ?thesis by simp
    next
      case (called sp)
      then show ?thesis
        by (auto split: sum.splits dest: call_err [rotated])
    qed
  qed (simp_all add: wf)
  with res show ?thesis by simp
qed

lemma consume_loop_extras:
  assumes wfa: "wf_acts acts"
    and call_ex: "\<And>sp vs st st'. call sp vs st = Inr st' \<Longrightarrow> extras st' = extras st"
    and wf: "list_all (\<lambda>x. wf_pat acts (snd x)) rest"
    and res: "consume_loop call acts st rest = Inr st'"
  shows "prefix (extras st) (extras st')"
proof -
  let ?Q = "\<lambda>s :: parse_state. prefix (extras st) (extras s)"
  have "case consume_loop call acts st rest of Inl e \<Rightarrow> True | Inr st' \<Rightarrow> ?Q st'"
  proof (rule consume_loop_rule [where Q = ?Q and E = "\<lambda>e. True"])
    fix s arg tup after
    assume Q: "?Q s" and wft: "wf_tuple acts tup"
    have len: "length (map snd after) = length (map fst after)" for after :: "(string \<times> pat) list"
      by simp
    show "case consume_optional acts arg tup (map snd after) (map fst after) s of
            Inl e \<Rightarrow> True | Inr (st', stop) \<Rightarrow> ?Q st'"
    proof (cases rule: consume_optional_cases [OF wfa len [of after] wft, where arg = arg and st = s,
          case_names error unknown taken])
      case (error e)
      then show ?thesis by simp
    next
      case unknown
      with Q show ?thesis by (auto simp: prefix_def)
    next
      case (taken a ats stop st')
      with Q show ?thesis by (auto intro: prefix_order.trans)
    qed
  next
    fix s :: parse_state and ys
    assume "?Q s"
    then show "?Q (s\<lparr>extras := extras s @ ys\<rparr>)" by (auto simp: prefix_def)
  next
    fix s rest'
    assume Q: "?Q s"
    show "case consume_positionals call s rest' of Inl e \<Rightarrow> True | Inr (st', n) \<Rightarrow> ?Q st'"
    proof (cases rule: consume_positionals_cases [of call s rest'])
      case nothing
      with Q show ?thesis by simp
    next
      case (called sp)
      with Q show ?thesis
        by (auto split: sum.splits dest: call_ex)
    qed
  qed (simp_all add: wf)
  with res show ?thesis by simp
qed

lemma consume_loop_keeps:
  assumes wfa: "wf_acts acts" and keep: "stores_keep acts N"
    and wf: "list_all (\<lambda>x. wf_pat acts (snd x)) rest"
    and res: "consume_loop call acts st rest = Inr st'"
    and init: "N (namespace st)" "positionals st = None"
  shows "N (namespace st') \<and> positionals st' = None"
proof -
  let ?Q = "\<lambda>s :: parse_state. N (namespace s) \<and> positionals s = None"
  have "case consume_loop call acts st rest of Inl e \<Rightarrow> True | Inr st' \<Rightarrow> ?Q st'"
  proof (rule consume_loop_rule [where Q = ?Q and E = "\<lambda>e. True"])
    fix s arg tup after
    assume Q: "?Q s" and wft: "wf_tuple acts tup"
    have len: "length (map snd after) = length (map fst after)" for after :: "(string \<times> pat) list"
      by simp
    show "case consume_optional acts arg tup (map snd after) (map fst after) s of
            Inl e \<Rightarrow> True | Inr (st', stop) \<Rightarrow> ?Q st'"
    proof (cases rule: consume_optional_cases [OF wfa len [of after] wft, where arg = arg and st = s,
          case_names error unknown taken])
      case (error e)
      then show ?thesis by simp
    next
      case unknown
      with Q show ?thesis by simp
    next
      case (taken a ats stop s')
      from Q have "N (namespace (s\<lparr>extras := extras s'\<rparr>))" by simp
      from take_actions_keeps [OF keep taken(3) taken(5) this]
        take_actions_frame [OF taken(5)] Q taken(4)
      show ?thesis by simp
    qed
  next
    fix s :: parse_state and ys
    assume "?Q s"
    then show "?Q (s\<lparr>extras := extras s @ ys\<rparr>)" by simp
  next
    fix s rest'
    assume Q: "?Q s"
    then show "case consume_positionals call s rest' of Inl e \<Rightarrow> True | Inr (st', n) \<Rightarrow> ?Q st'"
      by (simp add: consume_positionals_def)
  qed (simp_all add: wf init)
  with res show ?thesis by simp
qed

lemma srv_optionals: "optionals (srv env) = sub_actions env ''0.0.0.0''"
  by (simp add: srv_def add_argument_def new_ArgumentParser_def sub_actions_def)

lemma cli_optionals: "optionals (cli env) = sub_actions env ''127.0.0.1''"
  by (simp add: cli_def add_argument_def new_ArgumentParser_def sub_actions_def)

lemma parser_optionals: "optionals (parser env) = [HelpAction [''-h'', ''--help'']]"
  by (simp add: parser_def add_subparsers_def new_ArgumentParser_def)

lemma parser_subparsers:
  "subparsers (parser env) =
     Some \<lparr>dest = ''mode'', required = True,
           name_parser_map = [(''server'', sub_actions env ''0.0.0.0''),
                              (''client'', sub_actions env ''127.0.0.1'')]\<rparr>"
  by (simp add: parser_def add_subparsers_def new_ArgumentParser_def srv_optionals cli_optionals)

lemma wf_acts_sub: "wf_acts (sub_actions env dh)"
  by (simp add: wf_acts_def sub_actions_def option_string_actions_def)

lemma wf_acts_top: "wf_acts [HelpAction [''-h'', ''--help'']]"
  by (simp add: wf_acts_def option_string_actions_def)

lemma sub_namespace_host: "sub_namespace ns \<Longrightarrow> sub_namespace (ns(''host'' \<mapsto> PyStr s))"
  unfolding sub_namespace_def
proof (elim exE)
  fix h p
  assume "ns = [''host'' \<mapsto> PyStr h, ''port'' \<mapsto> PyInt p]"
  then have "ns(''host'' \<mapsto> PyStr s) = [''host'' \<mapsto> PyStr s, ''port'' \<mapsto> PyInt p]"
    by (auto simp: fun_eq_iff)
  then show "\<exists>h p. ns(''host'' \<mapsto> PyStr s) = [''host'' \<mapsto> PyStr h, ''port'' \<mapsto> PyInt p]"
    by blast
qed

lemma sub_namespace_port: "sub_namespace ns \<Longrightarrow> sub_namespace (ns(''port'' \<mapsto> PyInt n))"
  unfolding sub_namespace_def
proof (elim exE)
  fix h p
  assume "ns = [''host'' \<mapsto> PyStr h, ''port'' \<mapsto> PyInt p]"
  then have "ns(''port'' \<mapsto> PyInt n) = [''host'' \<mapsto> PyStr h, ''port'' \<mapsto> PyInt n]"
    by (auto simp: fun_eq_iff)
  then show "\<exists>h p. ns(''port'' \<mapsto> PyInt n) = [''host'' \<mapsto> PyStr h, ''port'' \<mapsto> PyInt p]"
    by blast
qed

lemma stores_keep_sub: "stores_keep (sub_actions env dh) sub_namespace"
  unfolding stores_keep_def sub_actions_def
  by (auto simp: type_None_def type_int_def intro: sub_namespace_host sub_namespace_port)

lemma initial_namespace_sub:
  "initial_namespace \<lparr>optionals = sub_actions env dh, subparsers = None\<rparr>
     = [''host'' \<mapsto> PyStr dh, ''port'' \<mapsto> PyInt 9000]"
  by (simp add: initial_namespace_def sub_actions_def)

lemma convert_defaults_sub:
  assumes "sub_namespace (namespace st)"
  shows "\<exists>st'. convert_defaults (sub_actions env dh) st = Inr st'
           \<and> sub_namespace (namespace st') \<and> extras st' = extras st
           \<and> unrecognized_args st' = unrecognized_args st"
  using assms
  by (auto simp: sub_actions_def type_None_def intro: sub_namespace_host)

lemma zip_wf:
  assumes "list_all (wf_pat acts) ps"
  shows "list_all (\<lambda>x. wf_pat acts (snd x)) (zip args ps)"
  using assms by (auto simp: list_all_iff dest: set_zip_rightD)

lemma subparser_parse_known_args_error:
  assumes "subparser_parse_known_args env (sub_actions env dh) args = Inl e"
  shows "exit_error e"
proof -
  let ?acts = "sub_actions env dh"
  let ?call = "\<lambda>(sp :: subparsers_action) (values :: string list) (st :: parse_state).
                 (Inr st :: error + parse_state)"
  show ?thesis
  proof (cases "arg_strings_pattern env ?acts args")
    case (Inl e')
    with assms have "e = e'"
      by (simp add: subparser_parse_known_args_def parse_known_args_with_def)
    with Inl show ?thesis
      by (auto simp: exit_error_def dest: arg_strings_pattern_error)
  next
    case (Inr ps)
    let ?st0 = "\<lparr>namespace = initial_namespace \<lparr>optionals = ?acts, subparsers = None\<rparr>,
                 extras = [], unrecognized_args = [], positionals = None, seen_actions = [],
                 seen_positional = False\<rparr>"
    have wf: "list_all (\<lambda>x. wf_pat ?acts (snd x)) (zip args ps)"
      using arg_strings_pattern_wf [OF Inr] by (rule zip_wf)
    show ?thesis
    proof (cases "consume_loop ?call ?acts ?st0 (zip args ps)")
      case l: (Inl e')
      with assms Inr have "e = e'"
        by (simp add: subparser_parse_known_args_def parse_known_args_with_def)
      moreover have "exit_error e'"
        by (rule consume_loop_error [OF wf_acts_sub _ wf l]) simp
      ultimately show ?thesis by simp
    next
      case r: (Inr st)
      have "sub_namespace (namespace ?st0)"
        unfolding sub_namespace_def by (simp add: initial_namespace_sub) blast
      from consume_loop_keeps [OF wf_acts_sub stores_keep_sub wf r this]
      have "sub_namespace (namespace st)" by simp
      from convert_defaults_sub [OF this, of env dh] assms Inr r show ?thesis
        by (auto simp: subparser_parse_known_args_def parse_known_args_with_def)
    qed
  qed
qed

lemma subparser_parse_known_args_namespace:
  assumes "subparser_parse_known_args env (sub_actions env dh) args = Inr (ns, ex)"
  shows "sub_namespace ns"
proof -
  let ?acts = "sub_actions env dh"
  let ?call = "\<lambda>(sp :: subparsers_action) (values :: string list) (st :: parse_state).
                 (Inr st :: error + parse_state)"
  let ?st0 = "\<lparr>namespace = initial_namespace \<lparr>optionals = ?acts, subparsers = None\<rparr>,
               extras = [], unrecognized_args = [], positionals = None, seen_actions = [],
               seen_positional = False\<rparr>"
  from assms obtain ps st where ps: "arg_strings_pattern env ?acts args = Inr ps"
    and r: "consume_loop ?call ?acts ?st0 (zip args ps) = Inr st"
    by (auto simp: subparser_parse_known_args_def parse_known_args_with_def
        split: sum.splits)
  have wf: "list_all (\<lambda>x. wf_pat ?acts (snd x)) (zip args ps)"
    using arg_strings_pattern_wf [OF ps] by (rule zip_wf)
  have "sub_namespace (namespace ?st0)"
    unfolding sub_namespace_def by (simp add: initial_namespace_sub) blast
  from consume_loop_keeps [OF wf_acts_sub stores_keep_sub wf r this]
  have "sub_namespace (namespace st)" by simp
  from convert_defaults_sub [OF this, of env dh] assms ps r show ?thesis
    by (auto simp: subparser_parse_known_args_def parse_known_args_with_def)
qed

lemma help_only_take_actions:
  assumes "ats \<noteq> []" and "list_all (ok_tuple [HelpAction hs]) ats"
  shows "take_actions ats st = Inl (SystemExit 0)"
proof -
  from assms(1) obtain x ats' where ats: "ats = x # ats'" by (cases ats) auto
  obtain a args os where x: "x = (a, args, os)" by (cases x)
  from assms(2) ats x have "ok_tuple [HelpAction hs] (a, args, os)" by simp
  then have "a = HelpAction hs" by (cases a) auto
  with ats x show ?thesis by simp
qed

lemma SubParsersAction_call_extras:
  "SubParsersAction_call env sp vs st = Inr st' \<Longrightarrow> extras st' = extras st"
  by (auto simp: SubParsersAction_call_def error_exit_def
      split: list.splits option.splits sum.splits)

lemma SubParsersAction_call_cases:
  assumes "vs \<noteq> []"
  obtains (error) e where "SubParsersAction_call env (the_subparsers env) vs st = Inl e"
      "exit_error e"
  | (parsed) dh subns ex where
      "(hd vs = ''server'' \<and> dh = ''0.0.0.0'') \<or> (hd vs = ''client'' \<and> dh = ''127.0.0.1'')"
      "subparser_parse_known_args env (sub_actions env dh) (tl vs) = Inr (subns, ex)"
      "sub_namespace subns"
      "SubParsersAction_call env (the_subparsers env) vs st =
         Inr (st\<lparr>namespace := (namespace st)(''mode'' \<mapsto> PyStr (hd vs)) ++ subns,
                 unrecognized_args := unrecognized_args st @ ex\<rparr>)"
proof -
  from assms obtain name args where vs: "vs = name # args" by (cases vs) auto
  show ?thesis
  proof (cases "name = ''server'' \<or> name = ''client''")
    case False
    then have "SubParsersAction_call env (the_subparsers env) vs st = Inl (SystemExit 2)"
      by (simp add: SubParsersAction_call_def the_subparsers_def vs error_exit_def)
    then show ?thesis by (rule error) (simp add: exit_error_def)
  next
    case True
    then obtain dh where dh: "(name = ''server'' \<and> dh = ''0.0.0.0'')
        \<or> (name = ''client'' \<and> dh = ''127.0.0.1'')"
      and m: "map_of (name_parser_map (the_subparsers env)) name = Some (sub_actions env dh)"
      by (auto simp: the_subparsers_def)
    show ?thesis
    proof (cases "subparser_parse_known_args env (sub_actions env dh) args")
      case (Inl e)
      then have "exit_error e" by (rule subparser_parse_known_args_error)
      moreover have "SubParsersAction_call env (the_subparsers env) vs st = Inl e"
        using Inl m by (simp add: SubParsersAction_call_def vs)
      ultimately show ?thesis by (intro error [of e])
    next
      case (Inr r)
      obtain subns ex where r: "r = (subns, ex)" by (cases r)
      have "sub_namespace subns"
        using Inr r by (auto intro: subparser_parse_known_args_namespace)
      moreover have "SubParsersAction_call env (the_subparsers env) vs st =
         Inr (st\<lparr>namespace := (namespace st)(''mode'' \<mapsto> PyStr (hd vs)) ++ subns,
                 unrecognized_args := unrecognized_args st @ ex\<rparr>)"
        using Inr r m by (simp add: SubParsersAction_call_def vs the_subparsers_def)
      ultimately show ?thesis
        using dh Inr r vs by (intro parsed [of dh subns ex]) simp_all
    qed
  qed
qed


lemma consume_loop_Nil:
  "positionals st = None \<Longrightarrow> consume_loop call acts st [] = Inr (st\<lparr>extras := extras st\<rparr>)"
  by (subst consume_loop.simps) (simp add: consume_positionals_def)

lemma top_loop_success:
  fixes env :: pyenv
  defines "acts \<equiv> [HelpAction [''-h'', ''--help'']]"
    and "call \<equiv> SubParsersAction_call env"
  assumes wf: "list_all (\<lambda>x. wf_pat acts (snd x)) rest"
    and st0: "positionals st0 = Some sp" "extras st0 = []" "\<not> seen_positional st0"
    and res: "consume_loop call acts st0 rest = Inr st"
    and fin: "extras st = []" "seen_positional st"
  shows "\<exists>st1. rest \<noteq> [] \<and> call sp (map fst rest) st0 = Inr st1
           \<and> namespace st = namespace st1 \<and> unrecognized_args st = unrecognized_args st1"
proof -
  have wfa: "wf_acts acts" unfolding acts_def by (rule wf_acts_top)
  have call_ex: "\<And>sp vs s s'. call sp vs s = Inr s' \<Longrightarrow> extras s' = extras s"
    unfolding call_def by (rule SubParsersAction_call_extras)
  \<comment> \<open>once an option has been consumed, the parse cannot end with empty extras\<close>
  have no_option: False
    if dw: "dropWhile (\<lambda>x. \<not> is_O (snd x)) rest = (arg, PatO tup) # after"
      and run: "(case consume_optional acts arg tup (map snd after) (map fst after) s of
                   Inl e \<Rightarrow> Inl e
                 | Inr (st'', stop) \<Rightarrow> consume_loop call acts st'' (drop (stop - 1) after))
                = Inr st"
    for arg tup after s
  proof -
    have "(arg, PatO tup) \<in> set rest"
      using dw by (metis list.set_intros(1) set_dropWhileD)
    with wf have wft: "wf_tuple acts tup" by (auto simp: list_all_iff)
    have "set (drop k after) \<subseteq> set rest" for k
      using dw by (metis set_drop_subset set_dropWhileD set_subset_Cons subset_iff subsetI)
    with wf have wf_after: "list_all (\<lambda>x. wf_pat acts (snd x)) (drop k after)" for k
      by (auto simp: list_all_iff)
    have len: "length (map snd after) = length (map fst after)" by simp
    show False
    proof (cases rule: consume_optional_cases [OF wfa len wft, where arg = arg and st = s,
          case_names error unknown taken])
      case (error e)
      with run show ?thesis by simp
    next
      case unknown
      with run have "consume_loop call acts (s\<lparr>extras := extras s @ [arg]\<rparr>) (drop 0 after) = Inr st"
        by simp
      from consume_loop_extras [OF wfa call_ex wf_after this] fin(1) show ?thesis
        by (simp add: prefix_def)
    next
      case (taken a ats stop s')
      from taken(2,3) have "take_actions ats (s\<lparr>extras := extras s'\<rparr>) = Inl (SystemExit 0)"
        unfolding acts_def by (rule help_only_take_actions)
      with taken(5) show ?thesis by simp
    qed
  qed
  show ?thesis
  proof (cases "list_ex (\<lambda>x. is_O (snd x)) rest")
    case False
    then have eq: "consume_loop call acts st0 rest =
        (case consume_positionals call st0 rest of
           Inl e \<Rightarrow> Inl e
         | Inr (st', n) \<Rightarrow> Inr (st'\<lparr>extras := extras st' @ map fst (drop n rest)\<rparr>))"
      by (subst consume_loop.simps) simp
    show ?thesis
    proof (cases rule: consume_positionals_cases [of call st0 rest])
      case nothing
      with res eq fin(2) st0(3) show ?thesis by auto
    next
      case (called sp')
      with res eq st0(1) show ?thesis by (auto split: sum.splits)
    qed
  next
    case True
    then obtain x after where dw: "dropWhile (\<lambda>x. \<not> is_O (snd x)) rest = x # after"
      and "is_O (snd x)"
      by (rule dropWhile_list_ex)
    then obtain arg tup where x: "x = (arg, PatO tup)"
      by (cases x; cases "snd x") auto
    note dw' = dw [unfolded x]
    show ?thesis
    proof (cases "takeWhile (\<lambda>x. \<not> is_O (snd x)) rest = []")
      case tw: True
      have "consume_loop call acts st0 rest =
          (case consume_optional acts arg tup (map snd after) (map fst after) st0 of
             Inl e \<Rightarrow> Inl e
           | Inr (st'', stop) \<Rightarrow> consume_loop call acts st'' (drop (stop - 1) after))"
        using True dw x tw by (subst consume_loop.simps) simp
      with res have "(case consume_optional acts arg tup (map snd after) (map fst after) st0 of
             Inl e \<Rightarrow> Inl e
           | Inr (st'', stop) \<Rightarrow> consume_loop call acts st'' (drop (stop - 1) after)) = Inr st"
        by simp
      from no_option [OF dw' this] show ?thesis ..
    next
      case tw: False
      show ?thesis
      proof (cases rule: consume_positionals_cases [of call st0 rest])
        case nothing
        then have "consume_loop call acts st0 rest =
            (case consume_optional acts arg tup (map snd after) (map fst after)
                    (st0\<lparr>extras := extras st0 @
                        map fst (takeWhile (\<lambda>x. \<not> is_O (snd x)) rest)\<rparr>) of
               Inl e \<Rightarrow> Inl e
             | Inr (st'', stop) \<Rightarrow> consume_loop call acts st'' (drop (stop - 1) after))"
          using True dw x tw by (subst consume_loop.simps) simp
        with res have "(case consume_optional acts arg tup (map snd after) (map fst after)
                    (st0\<lparr>extras := extras st0 @
                        map fst (takeWhile (\<lambda>x. \<not> is_O (snd x)) rest)\<rparr>) of
               Inl e \<Rightarrow> Inl e
             | Inr (st'', stop) \<Rightarrow> consume_loop call acts st'' (drop (stop - 1) after)) = Inr st"
          by simp
        from no_option [OF dw' this] show ?thesis ..
      next
        case (called sp')
        from called(1) st0(1) have sp': "sp' = sp" by simp
        show ?thesis
        proof (cases "call sp (map fst rest) st0")
          case (Inl e)
          then have "consume_loop call acts st0 rest = Inl e"
            using True dw x tw called(4) sp' by (subst consume_loop.simps) simp
          with res show ?thesis by simp
        next
          case (Inr st1)
          have "consume_loop call acts st0 rest =
              consume_loop call acts (st1\<lparr>positionals := None, seen_positional := True\<rparr>)
                (drop (length rest) rest)"
            using True dw x tw called(2,4) sp' Inr by (subst consume_loop.simps) simp
          with res have "st = st1\<lparr>positionals := None, seen_positional := True\<rparr>"
            by (simp add: consume_loop_Nil)
          with Inr called(2) show ?thesis by simp
        qed
      qed
    qed
  qed
qed

lemma parser_subparsers': "subparsers (parser env) = Some (the_subparsers env)"
  by (simp add: parser_subparsers the_subparsers_def)

lemma initial_namespace_parser: "initial_namespace (parser env) = [''mode'' \<mapsto> PyNone]"
  by (simp add: initial_namespace_def parser_optionals parser_subparsers' the_subparsers_def)

lemma map_fst_zip_eq: "length xs = length ys \<Longrightarrow> map fst (zip xs ys) = xs"
  by (induction xs ys rule: list_induct2) simp_all

lemma parse_args_success:
  assumes "parse_args env (Some argv) = Inr ns"
  shows "\<exists>name args dh h p. argv = name # args
           \<and> ((name = ''server'' \<and> dh = ''0.0.0.0'') \<or> (name = ''client'' \<and> dh = ''127.0.0.1''))
           \<and> subparser_parse_known_args env (sub_actions env dh) args
               = Inr ([''host'' \<mapsto> PyStr h, ''port'' \<mapsto> PyInt p], [])
           \<and> ns = [''mode'' \<mapsto> PyStr name, ''host'' \<mapsto> PyStr h, ''port'' \<mapsto> PyInt p]"
proof -
  let ?acts = "[HelpAction [''-h'', ''--help'']]"
  let ?st0 = "\<lparr>namespace = [''mode'' \<mapsto> PyNone], extras = [], unrecognized_args = [],
               positionals = Some (the_subparsers env), seen_actions = [],
               seen_positional = False\<rparr>"
  from assms have pk: "parse_known_args env (parser env) argv = Inr (ns, [])"
    by (auto simp: parse_args_def ArgumentParser_parse_args_def error_exit_def
        split: sum.splits if_splits)
  then obtain ps st where ps: "arg_strings_pattern env ?acts argv = Inr ps"
    and loop: "consume_loop (SubParsersAction_call env) ?acts ?st0 (zip argv ps) = Inr st"
    and fin: "seen_positional st" "extras st = []" "unrecognized_args st = []"
    and ns: "ns = namespace st"
    by (auto simp: parse_known_args_def parse_known_args_with_def parser_optionals
        parser_subparsers' initial_namespace_parser the_subparsers_def error_exit_def
        split: sum.splits if_splits)
  have wf: "list_all (\<lambda>x. wf_pat ?acts (snd x)) (zip argv ps)"
    using arg_strings_pattern_wf [OF ps] by (rule zip_wf)
  have len: "length argv = length ps"
    using arg_strings_pattern_length [OF ps] by simp
  from top_loop_success [OF wf _ _ _ loop fin(2) fin(1), of "the_subparsers env"]
  obtain st1 where ne: "zip argv ps \<noteq> []"
    and call: "SubParsersAction_call env (the_subparsers env) (map fst (zip argv ps)) ?st0 = Inr st1"
    and eqs: "namespace st = namespace st1" "unrecognized_args st = unrecognized_args st1"
    by auto
  from call len have call': "SubParsersAction_call env (the_subparsers env) argv ?st0 = Inr st1"
    by (simp add: map_fst_zip_eq)
  from ne have argv_ne: "argv \<noteq> []" by auto
  then obtain name args where argv: "argv = name # args" by (cases argv) auto
  show ?thesis
  proof (cases rule: SubParsersAction_call_cases [OF argv_ne, of env ?st0,
        case_names error parsed])
    case (error e)
    with call' show ?thesis by simp
  next
    case (parsed dh subns ex)
    from parsed(4) call' eqs fin(3) have ex: "ex = []"
      and nst: "namespace st = [''mode'' \<mapsto> PyNone](''mode'' \<mapsto> PyStr (hd argv)) ++ subns"
      by auto
    from parsed(3) obtain h p where subns: "subns = [''host'' \<mapsto> PyStr h, ''port'' \<mapsto> PyInt p]"
      unfolding sub_namespace_def by blast
    have "ns = [''mode'' \<mapsto> PyStr name, ''host'' \<mapsto> PyStr h, ''port'' \<mapsto> PyInt p]"
      unfolding ns nst subns argv by (auto simp: fun_eq_iff map_add_def)
    with parsed(1,2) argv ex subns show ?thesis by auto
  qed
qed


lemma get_option_tuples_top:
  assumes "get_option_tuples [HelpAction [''-h'', ''--help'']] s = Inr tups"
  shows "length tups \<le> 1"
proof -
  from assms obtain c0 c1 cs where s: "s = c0 # c1 # cs"
    by (cases s; cases "tl s") (auto simp: get_option_tuples_def)
  show ?thesis
  proof (cases "c0 = CHR ''-'' \<and> c1 = CHR ''-''")
    case True
    obtain pre sep ea where pe: "partition_eq (CHR ''-'' # CHR ''-'' # cs) = (pre, sep, ea)"
      by (cases "partition_eq (CHR ''-'' # CHR ''-'' # cs)")
    then have "\<exists>x. pre = CHR ''-'' # CHR ''-'' # x"
      by (auto simp: partition_eq_def split: if_splits)
    then obtain x where pre: "pre = CHR ''-'' # CHR ''-'' # x" ..
    from assms True have "tups = map (\<lambda>(s, a). (Some a, s,
                             if sep = [] then None else Some sep,
                             if sep = [] then None else Some ea))
                        (filter (\<lambda>(s, a). prefix pre s)
                           (option_string_actions [HelpAction [''-h'', ''--help'']]))"
      by (simp add: get_option_tuples_def s pe)
    then show ?thesis
      by (simp add: pre option_string_actions_def)
  next
    case False
    with assms show ?thesis
      by (auto simp: get_option_tuples_def s option_string_actions_def error_exit_def
          split: if_splits)
  qed
qed

lemma parse_optional_top:
  "\<exists>r. parse_optional env [HelpAction [''-h'', ''--help'']] s = Inr r"
proof (cases "parse_optional env [HelpAction [''-h'', ''--help'']] s")
  case (Inl e)
  then have "s \<noteq> []" "hd s = CHR ''-''" "length s \<noteq> 1"
    by (auto simp: parse_optional_def split: if_splits option.splits)
  then have "2 \<le> length s" by (cases s; cases "tl s") auto
  with \<open>hd s = CHR ''-''\<close> obtain tups where
    t: "get_option_tuples [HelpAction [''-h'', ''--help'']] s = Inr tups"
    using get_option_tuples_Inr by blast
  from get_option_tuples_top [OF t] Inl t show ?thesis
    by (auto simp: parse_optional_def error_exit_def split: if_splits option.splits prod.splits)
next
  case (Inr r)
  then show ?thesis by blast
qed

lemma arg_strings_pattern_top:
  "\<exists>ps. arg_strings_pattern env [HelpAction [''-h'', ''--help'']] args = Inr ps"
proof (induction args)
  case Nil
  show ?case by simp
next
  case (Cons s args)
  from parse_optional_top [of env s] Cons show ?case by auto
qed

lemma top_loop_first_argument:
  assumes "positionals st0 = Some sp"
  shows "consume_loop call acts st0 ((cmd, PatA) # rest)
     = (case call sp (cmd # map fst rest) st0 of
          Inl e \<Rightarrow> Inl e
        | Inr st1 \<Rightarrow> Inr (st1\<lparr>positionals := None, seen_positional := True,
                              extras := extras st1\<rparr>))"
proof -
  let ?rest = "(cmd, PatA) # rest"
  have cp: "consume_positionals call st0 ?rest
     = (case call sp (cmd # map fst rest) st0 of
          Inl e \<Rightarrow> Inl e
        | Inr st1 \<Rightarrow> Inr (st1\<lparr>positionals := None, seen_positional := True\<rparr>, Suc (length rest)))"
    using assms by (simp add: consume_positionals_def match_parser_def)
  show ?thesis
  proof (cases "list_ex (\<lambda>x. is_O (snd x)) ?rest")
    case False
    then show ?thesis
      by (subst consume_loop.simps) (simp add: cp split: sum.splits)
  next
    case True
    then obtain x after where dw: "dropWhile (\<lambda>x. \<not> is_O (snd x)) ?rest = x # after"
      and "is_O (snd x)"
      by (rule dropWhile_list_ex)
    then obtain arg tup where x: "x = (arg, PatO tup)"
      by (cases x; cases "snd x") auto
    have tw: "takeWhile (\<lambda>x. \<not> is_O (snd x)) ?rest \<noteq> []" by simp
    show ?thesis
      using True dw [unfolded x] tw
      by (subst consume_loop.simps)
        (simp add: cp consume_loop_Nil split: sum.splits del: dropWhile.simps takeWhile.simps)
  qed
qed

lemma parse_args_subcommand:
  assumes cmd: "(cmd = ''server'' \<and> dh = ''0.0.0.0'') \<or> (cmd = ''client'' \<and> dh = ''127.0.0.1'')"
  shows "parse_args env (Some (cmd # args))
     = (case subparser_parse_known_args env (sub_actions env dh) args of
          Inl e \<Rightarrow> Inl e
        | Inr (subns, ex) \<Rightarrow>
            if ex \<noteq> [] then Inl (SystemExit 2)
            else Inr ([''mode'' \<mapsto> PyStr cmd] ++ subns))"
proof -
  let ?acts = "[HelpAction [''-h'', ''--help'']]"
  let ?st0 = "\<lparr>namespace = [''mode'' \<mapsto> PyNone], extras = [], unrecognized_args = [],
               positionals = Some (the_subparsers env), seen_actions = [],
               seen_positional = False\<rparr>"
  let ?call = "SubParsersAction_call env"
  obtain ps where ps: "arg_strings_pattern env ?acts args = Inr ps"
    using arg_strings_pattern_top by blast
  from cmd have po: "cmd \<noteq> ''--''" "parse_optional env ?acts cmd = Inr None"
    by (auto simp: parse_optional_def)
  then have pat: "arg_strings_pattern env ?acts (cmd # args) = Inr (PatA # ps)"
    using ps by simp
  have len: "length args = length ps"
    using arg_strings_pattern_length [OF ps] by simp
  from cmd have m: "map_of (name_parser_map (the_subparsers env)) cmd = Some (sub_actions env dh)"
    by (auto simp: the_subparsers_def)
  have req: "required (the_subparsers env)" by (simp add: the_subparsers_def)
  have dst: "dest (the_subparsers env) = ''mode''" by (simp add: the_subparsers_def)
  have loop: "consume_loop ?call ?acts ?st0 ((cmd, PatA) # zip args ps)
     = (case ?call (the_subparsers env) (cmd # args) ?st0 of
          Inl e \<Rightarrow> Inl e
        | Inr st1 \<Rightarrow> Inr (st1\<lparr>positionals := None, seen_positional := True,
                              extras := extras st1\<rparr>))"
    using top_loop_first_argument [of ?st0 "the_subparsers env" ?call ?acts cmd "zip args ps"]
    by (simp add: map_fst_zip_eq [OF len])
  have pk: "parse_known_args env (parser env) (cmd # args)
     = (case consume_loop ?call ?acts ?st0 ((cmd, PatA) # zip args ps) of
          Inl e \<Rightarrow> Inl e
        | Inr st \<Rightarrow>
            if \<not> seen_positional st then Inl (SystemExit 2)
            else Inr (namespace st, extras st @ unrecognized_args st))"
    by (simp add: parse_known_args_def parse_known_args_with_def parser_optionals
        parser_subparsers' initial_namespace_parser pat error_exit_def req
        del: arg_strings_pattern.simps split: sum.splits)
  show ?thesis
  proof (cases "subparser_parse_known_args env (sub_actions env dh) args")
    case (Inl e)
    then have "?call (the_subparsers env) (cmd # args) ?st0 = Inl e"
      by (simp add: SubParsersAction_call_def m)
    with Inl show ?thesis
      by (simp add: parse_args_def ArgumentParser_parse_args_def pk loop)
  next
    case (Inr r)
    obtain subns ex where r: "r = (subns, ex)" by (cases r)
    have "?call (the_subparsers env) (cmd # args) ?st0
       = Inr (?st0\<lparr>namespace := [''mode'' \<mapsto> PyNone](''mode'' \<mapsto> PyStr cmd) ++ subns,
                     unrecognized_args := ex\<rparr>)"
      using Inr r by (simp add: SubParsersAction_call_def m dst)
    moreover have "[''mode'' \<mapsto> PyNone](''mode'' \<mapsto> PyStr cmd) ++ subns
        = [''mode'' \<mapsto> PyStr cmd] ++ subns"
      by simp
    ultimately show ?thesis
      using Inr r
      by (simp add: parse_args_def ArgumentParser_parse_args_def pk loop error_exit_def)
  qed
qed


lemmas sub_eval =
  subparser_parse_known_args_def parse_known_args_with_def initial_namespace_sub
  consume_loop.simps consume_positionals_def consume_optional_def error_exit_def
  get_values_def type_None_def type_int_def

lemma sub_no_arguments:
  "subparser_parse_known_args env (sub_actions env dh) []
     = Inr ([''host'' \<mapsto> PyStr dh, ''port'' \<mapsto> PyInt 9000], [])"
  by (simp add: sub_eval) (auto simp: sub_actions_def type_None_def fun_eq_iff)





lemma parse_args_None: "parse_args env None = parse_args env (Some (drop 1 (sys_argv env)))"
  by (simp add: parse_args_def ArgumentParser_parse_args_def)




section \<open>The command line\<close>






text \<open>
  C3. \<^verbatim>\<open>main\<close> never returns normally. When \<^verbatim>\<open>parse_args\<close> returns a namespace, it has a
  host and a port, and \<^verbatim>\<open>main\<close> runs \<^verbatim>\<open>run_server\<close> with them when the mode is \<^verbatim>\<open>server\<close> and
  \<^verbatim>\<open>run_client\<close> when it is \<^verbatim>\<open>client\<close>. For every host and port, \<^verbatim>\<open>run_server\<close> raises the
  \<^verbatim>\<open>NotImplementedError\<close> of \<^verbatim>\<open>SQLiteDatabase.initialize\<close> after entering the constructor of
  the database and \<^verbatim>\<open>initialize\<close> and nothing else, so \<^verbatim>\<open>FinanceServer.start\<close> is not invoked;
  \<^verbatim>\<open>run_client\<close> raises the \<^verbatim>\<open>NotImplementedError\<close> of \<^verbatim>\<open>FinanceClient.connect\<close> after entering
  the constructor of the client and \<^verbatim>\<open>connect\<close> and nothing else, so no \<^verbatim>\<open>ClientUI\<close> is
  constructed.
\<close>

theorem main_never_returns:
  "(\<exists>e. fst (main env argv t) = Inl e)
   \<and> (parse_args env argv = Inr args \<longrightarrow>
        (\<exists>h p. args ''host'' = Some h \<and> args ''port'' = Some p
           \<and> (args ''mode'' = Some (PyStr ''server'') \<and> main env argv t = run_server env h p t
               \<or> args ''mode'' = Some (PyStr ''client'') \<and> main env argv t = run_client h p t)))
   \<and> run_server env host_arg port_arg t
       = (Inl (NotImplementedError (Some msg_initialize)),
          t @ [''SQLiteDatabase.__init__'', ''SQLiteDatabase.initialize''])
   \<and> run_client host_arg port_arg t
       = (Inl (NotImplementedError (Some msg_connect)),
          t @ [''FinanceClient.__init__'', ''FinanceClient.connect''])
   \<and> msg_initialize \<noteq> msg_start"
proof -
  have rs: "run_server env h p t
       = (Inl (NotImplementedError (Some msg_initialize)),
          t @ [''SQLiteDatabase.__init__'', ''SQLiteDatabase.initialize''])" for h p
    by (simp add: run_server_def SQLiteDatabase_init_def SQLiteDatabase_initialize_def)
  have rc: "run_client h p t
       = (Inl (NotImplementedError (Some msg_connect)),
          t @ [''FinanceClient.__init__'', ''FinanceClient.connect''])" for h p
    by (simp add: run_client_def FinanceClient_init_def connect_def)
  have never: "\<exists>e. fst (main env argv t) = Inl e"
    by (auto simp: main_def getattr_def rs rc split: sum.splits option.splits)
  have dispatch: "\<exists>h p. args ''host'' = Some h \<and> args ''port'' = Some p
           \<and> (args ''mode'' = Some (PyStr ''server'') \<and> main env argv t = run_server env h p t
               \<or> args ''mode'' = Some (PyStr ''client'') \<and> main env argv t = run_client h p t)"
    if ok: "parse_args env argv = Inr args"
  proof -
    obtain argv' where "parse_args env (Some argv') = Inr args"
      using ok parse_args_None [of env] by (cases argv) auto
    from parse_args_success [OF this] obtain cmd h p where
      cmd: "cmd = ''server'' \<or> cmd = ''client''" and
      args: "args = [''mode'' \<mapsto> PyStr cmd, ''host'' \<mapsto> PyStr h, ''port'' \<mapsto> PyInt p]"
      by auto
    from cmd show ?thesis
      by (auto simp: main_def ok getattr_def args)
  qed
  have "msg_initialize \<noteq> msg_start"
    by (simp add: msg_initialize_def msg_start_def)
  with never dispatch rs rc show ?thesis by blast
qed

theorem main_never_returns_witness:
  "parse_args example_env (Some [''server''])
     = Inr [''mode'' \<mapsto> PyStr ''server'', ''host'' \<mapsto> PyStr ''0.0.0.0'', ''port'' \<mapsto> PyInt 9000]
   \<and> main example_env (Some [''server'']) []
       = (Inl (NotImplementedError (Some msg_initialize)),
          [''SQLiteDatabase.__init__'', ''SQLiteDatabase.initialize''])
   \<and> parse_args example_env None
     = Inr [''mode'' \<mapsto> PyStr ''client'', ''host'' \<mapsto> PyStr ''127.0.0.1'', ''port'' \<mapsto> PyInt 9000]
   \<and> main example_env None []
       = (Inl (NotImplementedError (Some msg_connect)),
          [''FinanceClient.__init__'', ''FinanceClient.connect''])"
proof -
  have s: "parse_args example_env (Some [''server''])
     = Inr [''mode'' \<mapsto> PyStr ''server'', ''host'' \<mapsto> PyStr ''0.0.0.0'', ''port'' \<mapsto> PyInt 9000]"
    by (simp add: parse_args_subcommand [of "''server''" "''0.0.0.0''"] sub_no_arguments)
  have c: "parse_args example_env None
     = Inr [''mode'' \<mapsto> PyStr ''client'', ''host'' \<mapsto> PyStr ''127.0.0.1'', ''port'' \<mapsto> PyInt 9000]"
    by (simp add: parse_args_None example_env_def
        parse_args_subcommand [of "''client''" "''127.0.0.1''"] sub_no_arguments)
  show ?thesis
    using s c
      main_never_returns [of example_env "Some [''server'']" "[]"
        "[''mode'' \<mapsto> PyStr ''server'', ''host'' \<mapsto> PyStr ''0.0.0.0'', ''port'' \<mapsto> PyInt 9000]"
        "PyStr ''0.0.0.0''" "PyInt 9000"]
      main_never_returns [of example_env None "[]"
        "[''mode'' \<mapsto> PyStr ''client'', ''host'' \<mapsto> PyStr ''127.0.0.1'', ''port'' \<mapsto> PyInt 9000]"
        "PyStr ''127.0.0.1''" "PyInt 9000"]
    by simp
qed

end
